theory Spec2Isabelle
  imports Main "HOL-Library.Word"
begin

section \<open>Text, bytes and the interpreter's library\<close>

text \<open>
  A Python \<open>str\<close> is a sequence of Unicode code points and a \<open>bytes\<close> object a sequence
  of integers below 256. Literals of the source are written \<open>lit ''on''\<close>.
\<close>

type_synonym str = "nat list"
type_synonym byte = "8 word"

definition lit :: "string \<Rightarrow> str" where
  "lit cs = map of_char cs"

definition ascii_bytes :: "string \<Rightarrow> byte list" where
  "ascii_bytes cs = map of_char cs"

text \<open>
  The parts of CPython that depend on its Unicode database or on its configuration are
  parameters of the model: \<open>str.lower()\<close> and \<open>int()\<close> on a text that holds a code
  point above 127, and the limit on the number of digits \<open>int()\<close> converts
  (\<open>sys.get_int_max_str_digits()\<close>, 0 when there is none; CPython applies it to
  literals of more than 640 digits). On ASCII text the model computes the result itself and
  the first two fields are never read.
\<close>

record interp =
  unicode_lower :: "str \<Rightarrow> str"
  unicode_int :: "str \<Rightarrow> int option"
  int_max_str_digits :: nat

text \<open>
  An interpreter with CPython's default digit limit, to run the model on ASCII inputs;
  its two Unicode fields are placeholders that no ASCII input reads.
\<close>

definition ascii_interp :: interp where
  "ascii_interp = \<lparr>unicode_lower = (\<lambda>s. s), unicode_int = (\<lambda>s. None), int_max_str_digits = 4300\<rparr>"

definition is_ascii :: "str \<Rightarrow> bool" where
  "is_ascii s = list_all (\<lambda>c. c < 128) s"

text \<open>\<open>str.isspace\<close> of one code point; the same set is \<open>\s\<close> of \<open>re\<close> on a \<open>str\<close> pattern.\<close>

definition isspace :: "nat \<Rightarrow> bool" where
  "isspace c = ((9 \<le> c \<and> c \<le> 13) \<or> (28 \<le> c \<and> c \<le> 32) \<or> c = 133 \<or> c = 160 \<or> c = 5760
     \<or> (8192 \<le> c \<and> c \<le> 8202) \<or> c = 8232 \<or> c = 8233 \<or> c = 8239 \<or> c = 8287 \<or> c = 12288)"

definition py_strip :: "str \<Rightarrow> str" where
  "py_strip s = rev (dropWhile isspace (rev (dropWhile isspace s)))"

text \<open>
  \<open>re.split(r"\s+", s)\<close>: the pieces between the maximal runs of whitespace, with an empty
  piece before a leading run and after a trailing one.
\<close>

function re_split_ws :: "str \<Rightarrow> str list" where
  "re_split_ws s =
     (case dropWhile (\<lambda>c. \<not> isspace c) s of
        [] \<Rightarrow> [s]
      | w # r \<Rightarrow> takeWhile (\<lambda>c. \<not> isspace c) s # re_split_ws (dropWhile isspace r))"
  by pat_completeness auto
termination
proof (relation "measure length")
  fix s :: str and w r
  assume "dropWhile (\<lambda>c. \<not> isspace c) s = w # r"
  then have "length r < length s"
    by (metis length_dropWhile_le length_Cons less_Suc_eq_le not_less)
  moreover have "length (dropWhile isspace r) \<le> length r"
    by (rule length_dropWhile_le)
  ultimately show "(dropWhile isspace r, s) \<in> measure length"
    by simp
qed simp

definition ascii_lower :: "nat \<Rightarrow> nat" where
  "ascii_lower c = (if 65 \<le> c \<and> c \<le> 90 then c + 32 else c)"

definition py_lower :: "interp \<Rightarrow> str \<Rightarrow> str" where
  "py_lower I s = (if is_ascii s then map ascii_lower s else unicode_lower I s)"

definition py_endswith :: "str \<Rightarrow> nat \<Rightarrow> bool" where
  "py_endswith s c = (s \<noteq> [] \<and> last s = c)"

subsection \<open>\<open>int(s)\<close> in base 10\<close>

text \<open>
  The literal is: whitespace, an optional sign, digits with single underscores between
  them, whitespace. The whitespace \<open>int\<close> skips in ASCII text is that of C (\<open>Py_ISSPACE\<close>).
\<close>

definition is_digit :: "nat \<Rightarrow> bool" where
  "is_digit c = (48 \<le> c \<and> c \<le> 57)"

definition digit_val :: "nat \<Rightarrow> int" where
  "digit_val c = int c - 48"

definition c_isspace :: "nat \<Rightarrow> bool" where
  "c_isspace c = ((9 \<le> c \<and> c \<le> 13) \<or> c = 32)"

fun int_tail :: "int \<Rightarrow> str \<Rightarrow> int option" where
  "int_tail acc [] = Some acc"
| "int_tail acc (c # cs) =
     (if is_digit c then int_tail (10 * acc + digit_val c) cs
      else if c = 95 then
        (case cs of
           [] \<Rightarrow> None
         | d # ds \<Rightarrow> if is_digit d then int_tail (10 * acc + digit_val d) ds else None)
      else None)"

definition int_unsigned :: "str \<Rightarrow> int option" where
  "int_unsigned s =
     (case s of
        [] \<Rightarrow> None
      | c # cs \<Rightarrow> if is_digit c then int_tail (digit_val c) cs else None)"

definition int_literal :: "str \<Rightarrow> int option" where
  "int_literal s =
     (case rev (dropWhile c_isspace (rev (dropWhile c_isspace s))) of
        [] \<Rightarrow> None
      | c # cs \<Rightarrow>
          if c = 43 then int_unsigned cs
          else if c = 45 then map_option uminus (int_unsigned cs)
          else int_unsigned (c # cs))"

definition py_int :: "interp \<Rightarrow> str \<Rightarrow> int option" where
  "py_int I s =
     (if is_ascii s then
        (case int_literal s of
           None \<Rightarrow> None
         | Some v \<Rightarrow>
             let digits = length (filter is_digit s) in
             if 640 < digits \<and> 0 < int_max_str_digits I \<and> int_max_str_digits I < digits
             then None else Some v)
      else unicode_int I s)"

subsection \<open>\<open>round(n / d)\<close>\<close>

text \<open>
  \<open>round(pct * 255 / 100)\<close> divides two integers into a double and rounds the double to
  the nearest integer, a tie to the even one. The source reaches it with
  \<open>0 \<le> pct \<le> 100\<close> only: there the quotient is a tie exactly when it is \<open>k + 0.5\<close>,
  which is a double, and otherwise it lies at least \<open>0.01\<close> from every tie, far more than
  the error of the division, so the double rounds as the exact quotient does.
\<close>

definition py_round_div :: "int \<Rightarrow> int \<Rightarrow> int" where
  "py_round_div n d =
     (let q = n div d; r = n mod d in
      if 2 * r < d then q
      else if d < 2 * r then q + 1
      else if even q then q else q + 1)"

subsection \<open>\<open>bytes.decode("utf-8", errors="ignore")\<close>\<close>

text \<open>
  CPython's decoder. An invalid start byte is dropped; a sequence broken by a byte that
  is no continuation is dropped up to that byte, where decoding resumes; a sequence cut
  short by the end of the data is dropped.
\<close>

definition cont :: "nat \<Rightarrow> bool" where
  "cont b = (128 \<le> b \<and> b < 192)"

fun utf8_ignore :: "nat list \<Rightarrow> nat list" where
  "utf8_ignore [] = []"
| "utf8_ignore (b # bs) =
     (if b < 128 then b # utf8_ignore bs
      else if b < 194 then utf8_ignore bs
      else if b < 224 then
        (case bs of
           [] \<Rightarrow> []
         | b2 # r2 \<Rightarrow>
             if cont b2 then ((b - 192) * 64 + (b2 - 128)) # utf8_ignore r2
             else utf8_ignore bs)
      else if b < 240 then
        (case bs of
           [] \<Rightarrow> []
         | b2 # r2 \<Rightarrow>
             if \<not> cont b2 \<or> (b = 224 \<and> b2 < 160) \<or> (b = 237 \<and> 160 \<le> b2) then utf8_ignore bs
             else
               (case r2 of
                  [] \<Rightarrow> []
                | b3 # r3 \<Rightarrow>
                    if cont b3
                    then ((b - 224) * 4096 + (b2 - 128) * 64 + (b3 - 128)) # utf8_ignore r3
                    else utf8_ignore r2))
      else if b < 245 then
        (case bs of
           [] \<Rightarrow> []
         | b2 # r2 \<Rightarrow>
             if \<not> cont b2 \<or> (b = 240 \<and> b2 < 144) \<or> (b = 244 \<and> 144 \<le> b2) then utf8_ignore bs
             else
               (case r2 of
                  [] \<Rightarrow> []
                | b3 # r3 \<Rightarrow>
                    if \<not> cont b3 then utf8_ignore r2
                    else
                      (case r3 of
                         [] \<Rightarrow> []
                       | b4 # r4 \<Rightarrow>
                           if cont b4
                           then ((b - 240) * 262144 + (b2 - 128) * 4096 + (b3 - 128) * 64
                                 + (b4 - 128)) # utf8_ignore r4
                           else utf8_ignore r3)))
      else utf8_ignore bs)"

definition decode_ignore :: "byte list \<Rightarrow> str" where
  "decode_ignore raw = utf8_ignore (map unat raw)"

section \<open>Helpers of \<open>main.py\<close>\<close>

text \<open>
  Exceptions are values: \<open>Inl\<close> is a raise. The source raises \<open>ValueError\<close> for
  malformed input (the specification's ParseError and DomainError) and
  \<open>RuntimeError\<close> for a rejected call; \<open>requests\<close> raises on a transport failure and
  the stream reader on a failed read. Messages are kept without their interpolated values.
\<close>

datatype exn = ValueError string | RuntimeError nat | RequestException | StreamError

fun raises_ValueError :: "exn + 'a \<Rightarrow> bool" where
  "raises_ValueError (Inl (ValueError m)) = True"
| "raises_ValueError r = False"

subsection \<open>\<open>parse_command\<close>\<close>

text \<open>Lines 46 to 64: the value of the third token, already stripped and lower-cased.\<close>

definition parse_brightness :: "interp \<Rightarrow> str \<Rightarrow> exn + int" where
  "parse_brightness I raw_bri =
     (if py_endswith raw_bri 37 then
        (case py_int I (butlast raw_bri) of
           None \<Rightarrow> Inl (ValueError ''Brightness percentage must be an integer 0..100%'')
         | Some pct \<Rightarrow>
             if \<not> (0 \<le> pct \<and> pct \<le> 100)
             then Inl (ValueError ''Brightness percentage out of range 0..100%'')
             else Inr (py_round_div (pct * 255) 100))
      else
        (case py_int I raw_bri of
           None \<Rightarrow> Inl (ValueError ''Brightness must be an integer 0..255 or 0..100%'')
         | Some bri \<Rightarrow>
             if \<not> (0 \<le> bri \<and> bri \<le> 255)
             then Inl (ValueError ''Brightness out of range 0..255'')
             else Inr bri))"

definition parse_command :: "interp \<Rightarrow> str \<Rightarrow> exn + (str \<times> str \<times> int option)" where
  "parse_command I line =
     (if line = [] then Inl (ValueError ''Empty command'')
      else
        let parts = re_split_ws (py_strip line) in
        if length parts < 2 then Inl (ValueError ''Expected: <entity_id> <on|off> [brightness]'')
        else
          let entity_id = py_lower I (parts ! 0);
              action = py_lower I (parts ! 1)
          in
            if action \<noteq> lit ''on'' \<and> action \<noteq> lit ''off''
            then Inl (ValueError ''Action must be ON or OFF'')
            else if 3 \<le> length parts \<and> action = lit ''on'' then
              (case parse_brightness I (py_lower I (py_strip (parts ! 2))) of
                 Inl e \<Rightarrow> Inl e
               | Inr brightness \<Rightarrow> Inr (entity_id, action, Some brightness))
            else Inr (entity_id, action, None))"

subsection \<open>\<open>clean_command\<close>\<close>

definition is_ascii_letter :: "byte \<Rightarrow> bool" where
  "is_ascii_letter b = ((65 \<le> unat b \<and> unat b \<le> 90) \<or> (97 \<le> unat b \<and> unat b \<le> 122))"

text \<open>The loop over \<open>enumerate(raw)\<close>, entered at index \<open>i\<close>.\<close>

fun find_start :: "nat \<Rightarrow> byte list \<Rightarrow> nat option" where
  "find_start i [] = None"
| "find_start i (b # bs) = (if is_ascii_letter b then Some i else find_start (Suc i) bs)"

definition clean_command :: "byte list \<Rightarrow> str" where
  "clean_command raw =
     (case find_start 0 raw of
        None \<Rightarrow> []
      | Some start \<Rightarrow> py_strip (decode_ignore (drop start raw)))"

subsection \<open>\<open>domain_from_entity\<close> and \<open>build_service_call\<close>\<close>

text \<open>\<open>s.split(sep, 1)\<close> for a separator of one character.\<close>

definition py_split1 :: "nat \<Rightarrow> str \<Rightarrow> str list" where
  "py_split1 sep s =
     (if sep \<in> set s
      then [takeWhile (\<lambda>c. c \<noteq> sep) s, tl (dropWhile (\<lambda>c. c \<noteq> sep) s)]
      else [s])"

definition domain_from_entity :: "str \<Rightarrow> exn + str" where
  "domain_from_entity entity_id =
     (if 46 \<notin> set entity_id then Inl (ValueError ''entity_id must include domain'')
      else Inr (py_split1 46 entity_id ! 0))"

datatype pyval = PyStr str | PyInt int

type_synonym payload = "string \<rightharpoonup> pyval"

definition build_service_call ::
    "str \<Rightarrow> str \<Rightarrow> int option \<Rightarrow> exn + (str \<times> str \<times> payload)" where
  "build_service_call entity_id action brightness =
     (case domain_from_entity entity_id of
        Inl e \<Rightarrow> Inl e
      | Inr dom' \<Rightarrow>
          let data = [''entity_id'' \<mapsto> PyStr entity_id] in
          if dom' = lit ''light'' then
            Inr (lit ''light'',
                 if action = lit ''on'' then lit ''turn_on'' else lit ''turn_off'',
                 case brightness of
                   Some v \<Rightarrow> if action = lit ''on'' then data(''brightness'' \<mapsto> PyInt v) else data
                 | None \<Rightarrow> data)
          else if dom' = lit ''switch'' then
            Inr (lit ''switch'',
                 if action = lit ''on'' then lit ''turn_on'' else lit ''turn_off'', data)
          else
            Inr (lit ''homeassistant'',
                 if action = lit ''on'' then lit ''turn_on'' else lit ''turn_off'', data))"

section \<open>The connection handler\<close>

text \<open>
  One run of \<open>handle\<close> is the list of what it does to the world, in order: calls of
  the logger, the HTTP POST, \<open>writer.close()\<close>, \<open>os._exit\<close>. The world's answers are
  inputs: what \<open>reader.readline()\<close> gives and how the hub replies.
\<close>

datatype level = INFO | WARNING | ERROR

datatype event = Log level string | HttpPost str str payload | SocketClose | ProcessExit int

datatype read_result = Line "byte list" | ReadFailure

datatype http_reply = Response nat | TransportFailure

definition call_ha_service ::
    "http_reply \<Rightarrow> str \<Rightarrow> str \<Rightarrow> payload \<Rightarrow> event list \<times> (exn + unit)" where
  "call_ha_service reply domain service data =
     ([Log INFO ''url call'', HttpPost domain service data],
      case reply of
        TransportFailure \<Rightarrow> Inl RequestException
      | Response status_code \<Rightarrow>
          if 400 \<le> status_code then Inl (RuntimeError status_code) else Inr ())"

text \<open>
  The body of the outer \<open>try\<close> (lines 136 to 158): the events, and the exception that
  leaves it, if any. An early \<open>return\<close> and the normal end both leave it without one.
\<close>

definition handle_try :: "interp \<Rightarrow> read_result \<Rightarrow> http_reply \<Rightarrow> event list \<times> exn option" where
  "handle_try I rd reply =
     (case rd of
        ReadFailure \<Rightarrow> ([], Some StreamError)
      | Line raw \<Rightarrow>
          (let line = clean_command raw;
               rx = [Log INFO ''RX from'']
           in
             (case parse_command I line of
                Inl (ValueError m) \<Rightarrow> (rx @ [Log WARNING ''Input error''], None)
              | Inl e \<Rightarrow> (rx, Some e)
              | Inr (entity_id, action, brightness) \<Rightarrow>
                  (case build_service_call entity_id action brightness of
                     Inl (ValueError m) \<Rightarrow> (rx @ [Log WARNING ''build service error''], None)
                   | Inl e \<Rightarrow> (rx, Some e)
                   | Inr (domain, service, payload) \<Rightarrow>
                       (let pre = rx @ [Log INFO ''json'', Log INFO ''HA call''];
                            (evs, r) = call_ha_service reply domain service payload
                        in
                          (case r of
                             Inl e \<Rightarrow> (pre @ evs, Some e)
                           | Inr u \<Rightarrow> (pre @ evs @ [Log INFO ''OK''], None)))))))"

text \<open>
  The \<open>except Exception\<close> clause logs and calls \<open>os._exit(1)\<close>, which ends the process at
  once: the \<open>finally\<close> clause runs only when the body was left without an exception.
\<close>

definition fatal_log :: event where
  "fatal_log = Log ERROR ''Fatal error in handler; exiting for supervisor restart''"

definition handle :: "interp \<Rightarrow> read_result \<Rightarrow> http_reply \<Rightarrow> event list" where
  "handle I rd reply =
     (case handle_try I rd reply of
        (evs, Some e) \<Rightarrow> evs @ [fatal_log, ProcessExit 1]
      | (evs, None) \<Rightarrow> evs @ [SocketClose])"

section \<open>Notions of the specification\<close>

text \<open>
  The whitespace-separated tokens of a line: skip whitespace, take the characters up to
  the next whitespace, and so on to the end.
\<close>

function tokens :: "str \<Rightarrow> str list" where
  "tokens s =
     (case dropWhile isspace s of
        [] \<Rightarrow> []
      | c # cs \<Rightarrow>
          (c # takeWhile (\<lambda>x. \<not> isspace x) cs) # tokens (dropWhile (\<lambda>x. \<not> isspace x) cs))"
  by pat_completeness auto
termination
proof (relation "measure length")
  fix s :: str and c cs
  assume "dropWhile isspace s = c # cs"
  then have "length cs < length s"
    by (metis length_dropWhile_le length_Cons less_Suc_eq_le not_less)
  moreover have "length (dropWhile (\<lambda>x. \<not> isspace x) cs) \<le> length cs"
    by (rule length_dropWhile_le)
  ultimately show "(dropWhile (\<lambda>x. \<not> isspace x) cs, s) \<in> measure length"
    by simp
qed simp

text \<open>The part of a frame that starts at its first ASCII letter.\<close>

definition from_first_letter :: "byte list \<Rightarrow> byte list" where
  "from_first_letter raw = dropWhile (\<lambda>b. \<not> is_ascii_letter b) raw"

text \<open>
  The domain prefix of an entity reference is what stands before its first \<open>.\<close>; the
  specification asks for a separator with a non-empty prefix before it.
\<close>

definition domain_prefix :: "str \<Rightarrow> str" where
  "domain_prefix e = takeWhile (\<lambda>c. c \<noteq> 46) e"

definition has_domain_prefix :: "str \<Rightarrow> bool" where
  "has_domain_prefix e = (46 \<in> set e \<and> domain_prefix e \<noteq> [])"

text \<open>The first two columns of the mapping table.\<close>

definition service_domain :: "str \<Rightarrow> str" where
  "service_domain p =
     (if p = lit ''light'' then lit ''light''
      else if p = lit ''switch'' then lit ''switch''
      else lit ''homeassistant'')"

text \<open>
  What a run did: the outbound calls it made, whether it closed the socket, whether it
  ended the process. A connection is closed clean when the handler closed the socket and
  the process lives on, and closed fatal when the process was ended, which closes every
  socket it holds.
\<close>

fun outbound_calls :: "event list \<Rightarrow> (str \<times> str \<times> payload) list" where
  "outbound_calls [] = []"
| "outbound_calls (HttpPost d s p # es) = (d, s, p) # outbound_calls es"
| "outbound_calls (e # es) = outbound_calls es"

fun is_exit :: "event \<Rightarrow> bool" where
  "is_exit (ProcessExit c) = True"
| "is_exit e = False"

definition socket_closed :: "event list \<Rightarrow> bool" where
  "socket_closed tr = (SocketClose \<in> set tr)"

definition process_exited :: "event list \<Rightarrow> bool" where
  "process_exited tr = list_ex is_exit tr"

definition closed_clean :: "event list \<Rightarrow> bool" where
  "closed_clean tr = (socket_closed tr \<and> \<not> process_exited tr)"

definition closed_fatal :: "event list \<Rightarrow> bool" where
  "closed_fatal tr = process_exited tr"

text \<open>The outbound call fails: the hub answers with a status from 400 on, or the transport fails.\<close>

fun call_fails :: "http_reply \<Rightarrow> bool" where
  "call_fails TransportFailure = True"
| "call_fails (Response status_code) = (400 \<le> status_code)"

text \<open>Two frames as the controller sends them: a binary header, the command, a newline.\<close>

definition frame_fan :: "byte list" where
  "frame_fan = [0x18, 0x27, 0x01, 0x03, 0x03] @ ascii_bytes ''switch.fan1 off'' @ [0x0A]"

definition frame_bulb :: "byte list" where
  "frame_bulb = [0x18, 0x27, 0x01, 0x03] @ ascii_bytes ''light.bulb1 on 100%'' @ [0x0A]"

declare tokens.simps [simp del]
declare re_split_ws.simps [simp del]

section \<open>Facts about the library functions\<close>

lemma lit_neqs:
  "lit ''light'' \<noteq> lit ''switch''" "lit ''switch'' \<noteq> lit ''light''"
  "lit ''on'' \<noteq> lit ''off''" "lit ''off'' \<noteq> lit ''on''"
  "lit ''light'' \<noteq> []" "lit ''switch'' \<noteq> []"
  "[] \<noteq> lit ''light''" "[] \<noteq> lit ''switch''"
  by (simp_all add: lit_def)

lemma lit_nonempty: "lit (c # cs) \<noteq> []"
  by (simp add: lit_def)

lemma maybe_not_action: "lit ''maybe'' \<noteq> lit ''on''" "lit ''maybe'' \<noteq> lit ''off''"
  by (simp_all add: lit_def)

lemma rev_dropWhile_takeWhile:
  "u = rev (dropWhile P (rev u)) @ rev (takeWhile P (rev u))"
  by (metis rev_append rev_rev_ident takeWhile_dropWhile_id)

text \<open>
  What \<open>strip\<close> does: it removes a run of whitespace at each end, and what is left
  neither starts nor ends with whitespace.
\<close>

lemma py_strip_decomp:
  "\<exists>pre suf. s = pre @ py_strip s @ suf \<and> list_all isspace pre \<and> list_all isspace suf"
proof -
  let ?u = "dropWhile isspace s"
  have 1: "s = takeWhile isspace s @ ?u" by simp
  have 2: "?u = py_strip s @ rev (takeWhile isspace (rev ?u))"
    unfolding py_strip_def by (rule rev_dropWhile_takeWhile)
  have 3: "list_all isspace (takeWhile isspace s)"
    by (simp add: list_all_iff) (meson set_takeWhileD)
  have 4: "list_all isspace (rev (takeWhile isspace (rev ?u)))"
    by (simp add: list_all_iff) (meson set_takeWhileD)
  from 1 2 have "s = takeWhile isspace s @ py_strip s @ rev (takeWhile isspace (rev ?u))"
    by metis
  with 3 4 show ?thesis by blast
qed

lemma py_strip_trimmed:
  "py_strip s \<noteq> [] \<Longrightarrow> \<not> isspace (hd (py_strip s)) \<and> \<not> isspace (last (py_strip s))"
proof -
  assume ne: "py_strip s \<noteq> []"
  let ?u = "dropWhile isspace s"
  let ?v = "dropWhile isspace (rev ?u)"
  from ne have v: "?v \<noteq> []" by (simp add: py_strip_def)
  then have "\<not> isspace (hd ?v)" by (rule hd_dropWhile)
  then have l: "\<not> isspace (last (py_strip s))"
    using v by (simp add: py_strip_def last_rev)
  have u: "?u \<noteq> []"
  proof
    assume a: "?u = []"
    have "?v = []" unfolding a by simp
    with v show False by contradiction
  qed
  then have hu: "\<not> isspace (hd ?u)" by (rule hd_dropWhile)
  have "?u = rev ?v @ rev (takeWhile isspace (rev ?u))"
    by (rule rev_dropWhile_takeWhile)
  then have "hd ?u = hd (rev ?v)" using v by (metis hd_append2 rev_is_Nil_conv)
  with hu have "\<not> isspace (hd (py_strip s))" by (simp add: py_strip_def)
  with l show ?thesis by simp
qed

text \<open>
  ASCII bytes decode to themselves, and the decoder neither drops nor adds an ASCII
  character: what it drops and what it joins into one code point are bytes from 128 on.
\<close>

lemma utf8_ignore_ascii: "list_all (\<lambda>b. b < 128) bs \<Longrightarrow> utf8_ignore bs = bs"
  by (induction bs) auto

lemma decode_ignore_ascii:
  "list_all (\<lambda>b. unat b < 128) raw \<Longrightarrow> decode_ignore raw = map unat raw"
  by (simp add: decode_ignore_def utf8_ignore_ascii list_all_iff)

lemma cp3_ge:
  fixes b b2 b3 :: nat
  assumes "224 \<le> b" "128 \<le> b2" "\<not> (b = 224 \<and> b2 < 160)"
  shows "128 \<le> (b - 224) * 4096 + (b2 - 128) * 64 + (b3 - 128)"
proof (cases "b = 224")
  case True
  with assms have "32 \<le> b2 - 128" by simp
  then have "128 \<le> (b2 - 128) * 64" by simp
  then show ?thesis by simp
next
  case False
  with assms have "1 \<le> b - 224" by simp
  then have "128 \<le> (b - 224) * 4096" by simp
  then show ?thesis by simp
qed

lemma cp4_ge:
  fixes b b2 b3 b4 :: nat
  assumes "240 \<le> b" "128 \<le> b2" "\<not> (b = 240 \<and> b2 < 144)"
  shows "128 \<le> (b - 240) * 262144 + (b2 - 128) * 4096 + (b3 - 128) * 64 + (b4 - 128)"
proof (cases "b = 240")
  case True
  with assms have "16 \<le> b2 - 128" by simp
  then have "128 \<le> (b2 - 128) * 4096" by simp
  then show ?thesis by simp
next
  case False
  with assms have "1 \<le> b - 240" by simp
  then have "128 \<le> (b - 240) * 262144" by simp
  then show ?thesis by simp
qed

lemma cp2_ge:
  fixes b b2 :: nat
  assumes "194 \<le> b"
  shows "128 \<le> (b - 192) * 64 + (b2 - 128)"
proof -
  from assms have "2 \<le> b - 192" by simp
  then have "128 \<le> (b - 192) * 64" by simp
  then show ?thesis by simp
qed

lemma utf8_ignore_keeps_ascii:
  "filter (\<lambda>c. c < 128) (utf8_ignore bs) = filter (\<lambda>c. c < 128) bs"
proof (induction bs rule: length_induct)
  case (1 xs)
  have ih: "filter (\<lambda>c. c < 128) (utf8_ignore ys) = filter (\<lambda>c. c < 128) ys"
    if "length ys < length xs" for ys
    using 1 that by blast
  show ?case
  proof (cases xs)
    case Nil
    then show ?thesis by simp
  next
    case (Cons b bs)
    note step = utf8_ignore.simps(2) [of b]
    have ih1: "filter (\<lambda>c. c < 128) (utf8_ignore bs) = filter (\<lambda>c. c < 128) bs"
      using ih [of bs] Cons by simp
    consider (ascii) "b < 128" | (bad) "128 \<le> b" "b < 194" | (two) "194 \<le> b" "b < 224"
      | (three) "224 \<le> b" "b < 240" | (four) "240 \<le> b" "b < 245" | (high) "245 \<le> b"
      by linarith
    then show ?thesis
    proof cases
      case ascii
      with Cons ih1 show ?thesis by (simp del: utf8_ignore.simps add: step)
    next
      case bad
      with Cons ih1 show ?thesis by (simp del: utf8_ignore.simps add: step)
    next
      case high
      with Cons ih1 show ?thesis by (simp del: utf8_ignore.simps add: step)
    next
      case two
      show ?thesis
      proof (cases bs)
        case Nil
        with Cons two show ?thesis by (simp del: utf8_ignore.simps add: step)
      next
        case b2: (Cons b2 r2)
        have ih2: "filter (\<lambda>c. c < 128) (utf8_ignore r2) = filter (\<lambda>c. c < 128) r2"
          using ih [of r2] Cons b2 by simp
        show ?thesis
        proof (cases "cont b2")
          case True
          define cp where "cp = (b - 192) * 64 + (b2 - 128)"
          have ge: "128 \<le> cp"
            unfolding cp_def using two by (intro cp2_ge) auto
          have c2: "128 \<le> b2" using True by (simp add: cont_def)
          have "utf8_ignore xs = cp # utf8_ignore r2"
            unfolding cp_def using Cons b2 two True by (auto simp del: utf8_ignore.simps simp add: step)
          moreover have "filter (\<lambda>c. c < 128) xs = filter (\<lambda>c. c < 128) r2"
            using Cons b2 two c2 by simp
          ultimately show ?thesis using ge ih2 by (simp del: utf8_ignore.simps add: step)
        next
          case False
          with Cons b2 two ih1 show ?thesis by (simp del: utf8_ignore.simps add: step)
        qed
      qed
    next
      case three
      show ?thesis
      proof (cases bs)
        case Nil
        with Cons three show ?thesis by (simp del: utf8_ignore.simps add: step)
      next
        case b2: (Cons b2 r2)
        have ih2: "filter (\<lambda>c. c < 128) (utf8_ignore r2) = filter (\<lambda>c. c < 128) r2"
          using ih [of r2] Cons b2 by simp
        show ?thesis
        proof (cases "\<not> cont b2 \<or> (b = 224 \<and> b2 < 160) \<or> (b = 237 \<and> 160 \<le> b2)")
          case True
          with Cons b2 three ih1 show ?thesis by (simp del: utf8_ignore.simps add: step)
        next
          case ok2: False
          then have c2: "128 \<le> b2" by (simp add: cont_def)
          show ?thesis
          proof (cases r2)
            case Nil
            with Cons b2 three ok2 c2 show ?thesis by (auto simp del: utf8_ignore.simps simp add: step)
          next
            case b3: (Cons b3 r3)
            have ih3: "filter (\<lambda>c. c < 128) (utf8_ignore r3) = filter (\<lambda>c. c < 128) r3"
              using ih [of r3] Cons b2 b3 by simp
            show ?thesis
            proof (cases "cont b3")
              case True
              then have c3: "128 \<le> b3" by (simp add: cont_def)
              define cp where "cp = (b - 224) * 4096 + (b2 - 128) * 64 + (b3 - 128)"
              have ge: "128 \<le> cp"
                unfolding cp_def using three ok2 c2 by (intro cp3_ge) auto
              have "utf8_ignore xs = cp # utf8_ignore r3"
                unfolding cp_def using Cons b2 b3 three ok2 True by (auto simp del: utf8_ignore.simps simp add: step)
              moreover have "filter (\<lambda>c. c < 128) xs = filter (\<lambda>c. c < 128) r3"
                using Cons b2 b3 three c2 c3 by simp
              ultimately show ?thesis using ge ih3 by (simp del: utf8_ignore.simps add: step)
            next
              case False
              with Cons b2 b3 three ok2 c2 ih2 show ?thesis by (auto simp del: utf8_ignore.simps simp add: step)
            qed
          qed
        qed
      qed
    next
      case four
      show ?thesis
      proof (cases bs)
        case Nil
        with Cons four show ?thesis by (simp del: utf8_ignore.simps add: step)
      next
        case b2: (Cons b2 r2)
        have ih2: "filter (\<lambda>c. c < 128) (utf8_ignore r2) = filter (\<lambda>c. c < 128) r2"
          using ih [of r2] Cons b2 by simp
        show ?thesis
        proof (cases "\<not> cont b2 \<or> (b = 240 \<and> b2 < 144) \<or> (b = 244 \<and> 144 \<le> b2)")
          case True
          with Cons b2 four ih1 show ?thesis by (simp del: utf8_ignore.simps add: step)
        next
          case ok2: False
          then have c2: "128 \<le> b2" by (simp add: cont_def)
          show ?thesis
          proof (cases r2)
            case Nil
            with Cons b2 four ok2 c2 show ?thesis by (auto simp del: utf8_ignore.simps simp add: step)
          next
            case b3: (Cons b3 r3)
            have ih3: "filter (\<lambda>c. c < 128) (utf8_ignore r3) = filter (\<lambda>c. c < 128) r3"
              using ih [of r3] Cons b2 b3 by simp
            show ?thesis
            proof (cases "cont b3")
              case False
              with Cons b2 b3 four ok2 c2 ih2 show ?thesis by (auto simp del: utf8_ignore.simps simp add: step)
            next
              case True
              then have c3: "128 \<le> b3" by (simp add: cont_def)
              show ?thesis
              proof (cases r3)
                case Nil
                with Cons b2 b3 four ok2 c2 c3 True show ?thesis by (auto simp del: utf8_ignore.simps simp add: step)
              next
                case b4: (Cons b4 r4)
                have ih4: "filter (\<lambda>c. c < 128) (utf8_ignore r4) = filter (\<lambda>c. c < 128) r4"
                  using ih [of r4] Cons b2 b3 b4 by simp
                show ?thesis
                proof (cases "cont b4")
                  case c4: True
                  then have c4': "128 \<le> b4" by (simp add: cont_def)
                  define cp where
                    "cp = (b - 240) * 262144 + (b2 - 128) * 4096 + (b3 - 128) * 64 + (b4 - 128)"
                  have ge: "128 \<le> cp"
                    unfolding cp_def using four ok2 c2 by (intro cp4_ge) auto
                  have "utf8_ignore xs = cp # utf8_ignore r4"
                    unfolding cp_def using Cons b2 b3 b4 four ok2 True c4 by (auto simp del: utf8_ignore.simps simp add: step)
                  moreover have "filter (\<lambda>c. c < 128) xs = filter (\<lambda>c. c < 128) r4"
                    using Cons b2 b3 b4 four c2 c3 c4' by simp
                  ultimately show ?thesis using ge ih4 by (simp del: utf8_ignore.simps add: step)
                next
                  case False
                  with Cons b2 b3 b4 four ok2 c2 c3 True ih3 show ?thesis by (auto simp del: utf8_ignore.simps simp add: step)
                qed
              qed
            qed
          qed
        qed
      qed
    qed
  qed
qed

lemma decode_ignore_keeps_ascii:
  "filter (\<lambda>c. c < 128) (decode_ignore raw) = filter (\<lambda>c. c < 128) (map unat raw)"
  by (simp add: decode_ignore_def utf8_ignore_keeps_ascii)

text \<open>
  The tokens of a line, and \<open>re.split\<close> after \<open>strip\<close>: the same list, except that a
  line of whitespace only splits into one empty piece.
\<close>

lemma tokens_Nil [simp]: "tokens [] = []"
  by (simp add: tokens.simps)

lemma tokens_space: "isspace c \<Longrightarrow> tokens (c # s) = tokens s"
  by (simp add: tokens.simps [of "c # s"] tokens.simps [of s])

lemma tokens_nonspace:
  "\<not> isspace c \<Longrightarrow>
   tokens (c # s) = (c # takeWhile (\<lambda>x. \<not> isspace x) s) # tokens (dropWhile (\<lambda>x. \<not> isspace x) s)"
  by (simp add: tokens.simps [of "c # s"])

lemma tokens_dropWhile: "tokens (dropWhile isspace s) = tokens s"
  by (induction s) (simp_all add: tokens_space)

lemma tokens_all_space: "list_all isspace s \<Longrightarrow> tokens s = []"
  by (induction s) (simp_all add: tokens_space)

lemma tokens_append_spaces: "list_all isspace ws \<Longrightarrow> tokens (s @ ws) = tokens s"
proof (induction s rule: length_induct)
  case (1 s)
  show ?case
  proof (cases s)
    case Nil
    with 1 show ?thesis by (simp add: tokens_all_space)
  next
    case (Cons c cs)
    show ?thesis
    proof (cases "isspace c")
      case True
      with 1 Cons show ?thesis by (simp add: tokens_space)
    next
      case False
      let ?r = "dropWhile (\<lambda>x. \<not> isspace x) cs"
      have len: "length ?r < length s"
        using Cons by (simp add: le_imp_less_Suc length_dropWhile_le)
      have ih: "tokens (?r @ ws) = tokens ?r"
        using 1 len by blast
      show ?thesis
      proof (cases "?r = []")
        case True
        then have all: "\<forall>x\<in>set cs. \<not> isspace x" 
          by (simp add: dropWhile_eq_Nil_conv)
        then have tk: "takeWhile (\<lambda>x. \<not> isspace x) (cs @ ws) = cs @ takeWhile (\<lambda>x. \<not> isspace x) ws"
          by (simp add: takeWhile_append2)
        have dk: "dropWhile (\<lambda>x. \<not> isspace x) (cs @ ws) = dropWhile (\<lambda>x. \<not> isspace x) ws"
          using all by (simp add: dropWhile_append2)
        have w1: "takeWhile (\<lambda>x. \<not> isspace x) ws = []"
          using 1(2) by (cases ws) simp_all
        have w2: "dropWhile (\<lambda>x. \<not> isspace x) ws = ws"
          using 1(2) by (cases ws) simp_all
        have tk0: "takeWhile (\<lambda>x. \<not> isspace x) cs = cs"
          using all by (simp add: takeWhile_eq_all_conv)
        have "tokens (s @ ws) =
            (c # takeWhile (\<lambda>x. \<not> isspace x) (cs @ ws)) # tokens (dropWhile (\<lambda>x. \<not> isspace x) (cs @ ws))"
          using False Cons by (simp add: tokens_nonspace)
        also have "\<dots> = (c # cs) # tokens ws"
          by (simp only: tk dk w1 w2 append_Nil2)
        also have "\<dots> = [c # cs]"
          using 1(2) by (simp add: tokens_all_space)
        finally have l: "tokens (s @ ws) = [c # cs]" .
        have "tokens s = (c # takeWhile (\<lambda>x. \<not> isspace x) cs) # tokens ?r"
          using False Cons by (simp add: tokens_nonspace)
        also have "\<dots> = [c # cs]"
          by (simp only: tk0 True tokens_Nil)
        finally show ?thesis using l by simp
      next
        case ne: False
        then obtain x where x: "x \<in> set cs" "isspace x"
          by (auto simp add: dropWhile_eq_Nil_conv)
        then have tk: "takeWhile (\<lambda>x. \<not> isspace x) (cs @ ws) = takeWhile (\<lambda>x. \<not> isspace x) cs"
          by (metis takeWhile_append1)
        have dk: "dropWhile (\<lambda>x. \<not> isspace x) (cs @ ws) = ?r @ ws"
          using x by (metis dropWhile_append1)
        show ?thesis
          using False Cons tk dk ih by (simp add: tokens_nonspace)
      qed
    qed
  qed
qed

lemma tokens_py_strip: "tokens (py_strip s) = tokens s"
proof -
  let ?u = "dropWhile isspace s"
  have "?u = py_strip s @ rev (takeWhile isspace (rev ?u))"
    unfolding py_strip_def by (rule rev_dropWhile_takeWhile)
  moreover have "list_all isspace (rev (takeWhile isspace (rev ?u)))"
    by (simp add: list_all_iff) (meson set_takeWhileD)
  ultimately have "tokens ?u = tokens (py_strip s)"
    by (metis tokens_append_spaces)
  then show ?thesis by (simp add: tokens_dropWhile)
qed

lemma re_split_ws_trimmed:
  "t \<noteq> [] \<Longrightarrow> \<not> isspace (hd t) \<Longrightarrow> \<not> isspace (last t) \<Longrightarrow> re_split_ws t = tokens t"
proof (induction t rule: length_induct)
  case (1 t)
  from 1(2) obtain c cs where t: "t = c # cs" by (cases t) auto
  with 1(3) have c: "\<not> isspace c" by simp
  let ?d = "dropWhile (\<lambda>x. \<not> isspace x) cs"
  let ?w = "c # takeWhile (\<lambda>x. \<not> isspace x) cs"
  have tw: "takeWhile (\<lambda>x. \<not> isspace x) t = ?w" and dw: "dropWhile (\<lambda>x. \<not> isspace x) t = ?d"
    using t c by simp_all
  have tok: "tokens t = ?w # tokens ?d"
    using t c by (simp add: tokens_nonspace)
  show ?case
  proof (cases ?d)
    case Nil
    then have tk: "takeWhile (\<lambda>x. \<not> isspace x) cs = cs"
      by (metis append_Nil2 takeWhile_dropWhile_id)
    have "dropWhile (\<lambda>x. \<not> isspace x) t = []"
      using dw Nil by (simp only:)
    then have "re_split_ws t = [t]"
      by (simp only: re_split_ws.simps [of t] list.case)
    moreover have "tokens t = [t]"
    proof -
      have "tokens t = ?w # tokens ?d" by (rule tok)
      also have "\<dots> = (c # cs) # tokens []" by (simp only: tk Nil)
      also have "\<dots> = [t]" by (simp only: tokens_Nil t)
      finally show ?thesis .
    qed
    ultimately show ?thesis by simp
  next
    case (Cons w r)
    then have w: "isspace w"
      by (metis hd_dropWhile list.sel(1) list.distinct(1))
    let ?t' = "dropWhile isspace r"
    have split: "re_split_ws t = ?w # re_split_ws ?t'"
      using Cons dw tw by (simp add: re_split_ws.simps [of t])
    have tdec: "t = ?w @ w # r"
      using t Cons by (metis append_Cons takeWhile_dropWhile_id)
    have r: "r \<noteq> []"
    proof
      assume "r = []"
      with tdec have "last t = w" by simp
      with w 1(4) show False by simp
    qed
    with tdec have lr: "last r = last t" by simp
    have rdec: "r = takeWhile isspace r @ ?t'" by simp
    have t': "?t' \<noteq> []"
    proof
      assume a: "?t' = []"
      then have "\<forall>x\<in>set r. isspace x" by (simp add: dropWhile_eq_Nil_conv)
      with r have "isspace (last r)" by simp
      with lr 1(4) show False by simp
    qed
    then have "last ?t' = last r" by (metis rdec last_appendR)
    with lr 1(4) have last': "\<not> isspace (last ?t')" by simp
    have hd': "\<not> isspace (hd ?t')" using t' by (rule hd_dropWhile)
    have "length ?t' \<le> length r" by (rule length_dropWhile_le)
    moreover have "length r < length t" using tdec by (metis length_append length_Cons less_add_Suc2 add_Suc_right less_SucI trans_less_add2)
    ultimately have "length ?t' < length t" by simp
    with 1(1) t' hd' last' have ih: "re_split_ws ?t' = tokens ?t'" by blast
    have "tokens ?d = tokens ?t'"
      using Cons w by (simp add: tokens_space tokens_dropWhile)
    with split tok ih show ?thesis by simp
  qed
qed

lemma re_split_ws_py_strip:
  "re_split_ws (py_strip s) = (if tokens s = [] then [Nil] else tokens s)"
proof (cases "py_strip s = []")
  case True
  then have "tokens s = []" using tokens_py_strip [of s] by simp
  with True show ?thesis by (simp add: re_split_ws.simps [of "[]"])
next
  case False
  then have "re_split_ws (py_strip s) = tokens (py_strip s)"
    using py_strip_trimmed [of s] by (simp add: re_split_ws_trimmed)
  moreover have "tokens (py_strip s) \<noteq> []"
    using False py_strip_trimmed [of s] by (cases "py_strip s") (simp_all add: tokens_nonspace)
  ultimately show ?thesis by (simp add: tokens_py_strip)
qed

text \<open>
  Rounding a quotient by 100: the result is a nearest integer, and the even one on a tie.
\<close>

lemma py_round_div_100:
  "\<bar>100 * py_round_div n 100 - n\<bar> \<le> 50
   \<and> (\<bar>100 * py_round_div n 100 - n\<bar> = 50 \<longrightarrow> even (py_round_div n 100))"
proof -
  define q where "q = n div 100"
  define r where "r = n mod 100"
  have n: "n = 100 * q + r" and r: "0 \<le> r" "r < 100"
    by (simp_all add: q_def r_def)
  have "py_round_div n 100 =
      (if 2 * r < 100 then q else if 100 < 2 * r then q + 1 else if even q then q else q + 1)"
    by (simp add: py_round_div_def Let_def q_def r_def)
  then show ?thesis
    using n r by (auto split: if_splits)
qed

text \<open>
  The model at the inputs of the examples below.
\<close>

lemma tokens_bulb_100:
  "tokens (lit ''light.bulb1 on 100%'') = [lit ''light.bulb1'', lit ''on'', lit ''100%'']"
  by (simp add: tokens.simps lit_def isspace_def)

lemma tokens_fan_off:
  "tokens (lit ''switch.fan1 off'') = [lit ''switch.fan1'', lit ''off'']"
  by (simp add: tokens.simps lit_def isspace_def)

lemma tokens_examples:
  "tokens (lit ''light.bulb1 on 50%'') = [lit ''light.bulb1'', lit ''on'', lit ''50%'']"
  "tokens (lit ''light.bulb1 on 300'') = [lit ''light.bulb1'', lit ''on'', lit ''300'']"
  "tokens (lit ''light.bulb1 on 150%'') = [lit ''light.bulb1'', lit ''on'', lit ''150%'']"
  "tokens (lit ''onlyone'') = [lit ''onlyone'']"
  "tokens (lit ''light.x maybe'') = [lit ''light.x'', lit ''maybe'']"
  "tokens (lit ''Light.Bulb1  ON 7 extra'') = [lit ''Light.Bulb1'', lit ''ON'', lit ''7'', lit ''extra'']"
  "tokens (lit ''Light.Bulb1  ON 7'') = [lit ''Light.Bulb1'', lit ''ON'', lit ''7'']"
  "tokens (lit ''switch.fan1 off 200'') = [lit ''switch.fan1'', lit ''off'', lit ''200'']"
  "tokens (lit ''switch.fan1 off 9x%'') = [lit ''switch.fan1'', lit ''off'', lit ''9x%'']"
  by (simp_all add: tokens.simps lit_def isspace_def)

lemma lower_words:
  "py_lower I (lit ''light.bulb1'') = lit ''light.bulb1''"
  "py_lower I (lit ''switch.fan1'') = lit ''switch.fan1''"
  "py_lower I (lit ''on'') = lit ''on''"
  "py_lower I (lit ''off'') = lit ''off''"
  by (simp_all add: lit_def py_lower_def is_ascii_def ascii_lower_def)

lemma lower_examples:
  "py_lower I (lit ''maybe'') = lit ''maybe''"
  "py_lower I (lit ''ON'') = lit ''on''"
  "py_lower I (lit ''Light.Bulb1'') = lit ''light.bulb1''"
  "py_lower I (py_strip (lit ''50%'')) = lit ''50%''"
  "py_lower I (py_strip (lit ''300'')) = lit ''300''"
  "py_lower I (py_strip (lit ''150%'')) = lit ''150%''"
  "py_lower I (py_strip (lit ''7'')) = lit ''7''"
  by (simp_all add: lit_def py_lower_def is_ascii_def ascii_lower_def py_strip_def isspace_def)

lemma int_100: "py_int I (lit ''100'') = Some 100"
  by (simp add: lit_def py_int_def is_ascii_def int_literal_def int_unsigned_def is_digit_def
      digit_val_def c_isspace_def Let_def)

lemma int_examples:
  "py_int I (lit ''50'') = Some 50"
  "py_int I (lit ''300'') = Some 300"
  "py_int I (lit ''7'') = Some 7"
  "py_int I (lit ''150'') = Some 150"
  by (simp_all add: lit_def py_int_def is_ascii_def int_literal_def int_unsigned_def is_digit_def
      digit_val_def c_isspace_def Let_def)

lemma endswith_examples:
  "py_endswith (lit ''50%'') 37" "butlast (lit ''50%'') = lit ''50''"
  "py_endswith (lit ''150%'') 37" "butlast (lit ''150%'') = lit ''150''"
  "\<not> py_endswith (lit ''300'') 37" "\<not> py_endswith (lit ''7'') 37"
  by (simp_all add: py_endswith_def lit_def)

lemma invalid_examples:
  "tokens (lit ''light.x on abc'') = [lit ''light.x'', lit ''on'', lit ''abc'']"
  "tokens (lit ''light.x on 256'') = [lit ''light.x'', lit ''on'', lit ''256'']"
  "tokens (lit ''light.x on 101%'') = [lit ''light.x'', lit ''on'', lit ''101%'']"
  "py_lower I (py_strip (lit ''abc'')) = lit ''abc''"
  "py_lower I (py_strip (lit ''256'')) = lit ''256''"
  "py_lower I (py_strip (lit ''101%'')) = lit ''101%''"
  "\<not> py_endswith (lit ''abc'') 37" "\<not> py_endswith (lit ''256'') 37"
  "py_endswith (lit ''101%'') 37" "butlast (lit ''101%'') = lit ''101''"
  "py_int I (lit ''abc'') = None" "py_int I (lit ''256'') = Some 256"
  "py_int I (lit ''101'') = Some 101"
  "lit ''light.x on abc'' \<noteq> []" "lit ''light.x on 256'' \<noteq> []"
  "lit ''light.x on 101%'' \<noteq> []"
  by (simp_all add: tokens.simps lit_def isspace_def py_lower_def is_ascii_def ascii_lower_def
      py_strip_def py_endswith_def py_int_def int_literal_def int_unsigned_def is_digit_def
      digit_val_def c_isspace_def Let_def)

section \<open>The frame extractor\<close>

lemma find_start_None: "find_start i raw = None \<longleftrightarrow> \<not> list_ex is_ascii_letter raw"
  by (induction raw arbitrary: i) auto

lemma find_start_Some:
  "find_start i raw = Some k \<Longrightarrow> i \<le> k \<and> drop (k - i) raw = from_first_letter raw"
proof (induction raw arbitrary: i)
  case Nil
  then show ?case by simp
next
  case (Cons b bs)
  show ?case
  proof (cases "is_ascii_letter b")
    case True
    with Cons.prems show ?thesis by (simp add: from_first_letter_def)
  next
    case False
    with Cons.prems have "find_start (Suc i) bs = Some k" by simp
    from Cons.IH [OF this] have "Suc i \<le> k" and "drop (k - Suc i) bs = from_first_letter bs"
      by simp_all
    with False show ?thesis
      by (simp add: from_first_letter_def Suc_diff_le drop_Cons')
  qed
qed

lemma clean_command_eq:
  "clean_command raw =
     (if list_ex is_ascii_letter raw then py_strip (decode_ignore (from_first_letter raw)) else [])"
proof (cases "find_start 0 raw")
  case None
  then show ?thesis
    using find_start_None [of 0 raw] by (simp add: clean_command_def)
next
  case (Some k)
  then have "list_ex is_ascii_letter raw"
    using find_start_None [of 0 raw] by simp
  moreover have "drop k raw = from_first_letter raw"
    using find_start_Some [OF Some] by simp
  ultimately show ?thesis
    using Some by (simp add: clean_command_def)
qed

lemma clean_after_header:
  assumes "list_all (\<lambda>b. \<not> is_ascii_letter b) hdr"
  shows "clean_command (hdr @ ascii_bytes ''light.bulb1 on 100%'' @ [0x0A]) = lit ''light.bulb1 on 100%''"
proof -
  let ?p = "ascii_bytes ''light.bulb1 on 100%'' @ [0x0A]"
  have l: "is_ascii_letter (hd ?p)" "?p \<noteq> []"
    by (simp_all add: ascii_bytes_def is_ascii_letter_def)
  then have "from_first_letter (hdr @ ?p) = ?p"
    using assms unfolding from_first_letter_def
    by (cases ?p) (simp_all add: list_all_iff dropWhile_append2)
  moreover have "list_ex is_ascii_letter (hdr @ ?p)"
    by (simp add: ascii_bytes_def is_ascii_letter_def list_ex_iff)
  moreover have "py_strip (decode_ignore ?p) = lit ''light.bulb1 on 100%''"
    by (simp add: ascii_bytes_def decode_ignore_def py_strip_def isspace_def lit_def)
  ultimately show ?thesis
    by (simp add: clean_command_eq)
qed

lemma clean_frame_bulb: "clean_command frame_bulb = lit ''light.bulb1 on 100%''"
  unfolding frame_bulb_def
  by (rule clean_after_header) (simp add: is_ascii_letter_def)

lemma clean_frame_fan: "clean_command frame_fan = lit ''switch.fan1 off''"
  by (simp add: frame_fan_def clean_command_def ascii_bytes_def is_ascii_letter_def
      decode_ignore_def py_strip_def isspace_def lit_def)

text \<open>
  C9: a frame without an ASCII letter yields the empty text; any other frame yields the
  bytes from its first ASCII letter on, decoded with invalid sequences dropped, and
  stripped of whitespace at both ends, so that the result neither starts nor ends with
  whitespace. A frame that starts with a letter yields its whole payload, stripped; when
  the payload is ASCII, that is the payload itself, stripped.
\<close>

theorem extractor_contract:
  "(\<not> list_ex is_ascii_letter raw \<longrightarrow> clean_command raw = [])
   \<and> (list_ex is_ascii_letter raw \<longrightarrow>
        clean_command raw = py_strip (decode_ignore (from_first_letter raw)))
   \<and> (raw \<noteq> [] \<and> is_ascii_letter (hd raw) \<longrightarrow> clean_command raw = py_strip (decode_ignore raw))
   \<and> (raw \<noteq> [] \<and> is_ascii_letter (hd raw) \<and> list_all (\<lambda>b. unat b < 128) raw \<longrightarrow>
        clean_command raw = py_strip (map unat raw))
   \<and> (clean_command raw \<noteq> [] \<longrightarrow>
        \<not> isspace (hd (clean_command raw)) \<and> \<not> isspace (last (clean_command raw)))"
proof -
  have "clean_command raw = py_strip (decode_ignore raw)" if "raw \<noteq> []" "is_ascii_letter (hd raw)"
  proof -
    from that obtain b bs where "raw = b # bs" "is_ascii_letter b" by (cases raw) auto
    then show ?thesis by (simp add: clean_command_eq from_first_letter_def)
  qed
  moreover have "\<not> isspace (hd (clean_command raw)) \<and> \<not> isspace (last (clean_command raw))"
    if "clean_command raw \<noteq> []"
    using that py_strip_trimmed [of "decode_ignore (from_first_letter raw)"]
    by (simp add: clean_command_eq split: if_splits)
  ultimately show ?thesis
    by (simp add: clean_command_eq decode_ignore_ascii)
qed

theorem extractor_contract_witness:
  "clean_command [0x18, 0x27, 0x01, 0x03] = []
   \<and> clean_command frame_bulb = lit ''light.bulb1 on 100%''
   \<and> clean_command (ascii_bytes ''light.x on  '') = lit ''light.x on''
   \<and> clean_command ([0x03] @ ascii_bytes ''on'' @ [0xFF, 0xC3, 0xA9, 0xE2, 0x82, 0x20, 0x0A]) =
       lit ''on'' @ [233]"
proof -
  have "\<not> list_ex is_ascii_letter [0x18, 0x27, 0x01, 0x03]"
    by (simp add: is_ascii_letter_def)
  with extractor_contract [of "[0x18, 0x27, 0x01, 0x03]"]
  have 1: "clean_command [0x18, 0x27, 0x01, 0x03] = []" by blast
  have l: "list_ex is_ascii_letter frame_bulb"
    by (simp add: frame_bulb_def ascii_bytes_def is_ascii_letter_def)
  have s: "py_strip (decode_ignore (from_first_letter frame_bulb)) = lit ''light.bulb1 on 100%''"
    by (simp add: frame_bulb_def from_first_letter_def ascii_bytes_def is_ascii_letter_def
        decode_ignore_def py_strip_def isspace_def lit_def)
  from extractor_contract [of frame_bulb] l
  have "clean_command frame_bulb = py_strip (decode_ignore (from_first_letter frame_bulb))"
    by blast
  with s have 2: "clean_command frame_bulb = lit ''light.bulb1 on 100%''" by simp
  have h: "ascii_bytes ''light.x on  '' \<noteq> [] \<and> is_ascii_letter (hd (ascii_bytes ''light.x on  ''))
    \<and> list_all (\<lambda>b. unat b < 128) (ascii_bytes ''light.x on  '')"
    by (simp add: ascii_bytes_def is_ascii_letter_def)
  have t: "py_strip (map unat (ascii_bytes ''light.x on  '')) = lit ''light.x on''"
    by (simp add: ascii_bytes_def py_strip_def isspace_def lit_def)
  from extractor_contract [of "ascii_bytes ''light.x on  ''"] h
  have "clean_command (ascii_bytes ''light.x on  '') = py_strip (map unat (ascii_bytes ''light.x on  ''))"
    by blast
  with t have 3: "clean_command (ascii_bytes ''light.x on  '') = lit ''light.x on''" by simp
  let ?f = "[0x03] @ ascii_bytes ''on'' @ [0xFF, 0xC3, 0xA9, 0xE2, 0x82, 0x20, 0x0A]"
  have l4: "list_ex is_ascii_letter ?f"
    by (simp add: ascii_bytes_def is_ascii_letter_def)
  have s4: "py_strip (decode_ignore (from_first_letter ?f)) = lit ''on'' @ [233]"
    by (simp add: from_first_letter_def ascii_bytes_def is_ascii_letter_def decode_ignore_def
        cont_def py_strip_def isspace_def lit_def)
  from extractor_contract [of ?f] l4
  have "clean_command ?f = py_strip (decode_ignore (from_first_letter ?f))"
    by blast
  with s4 have 4: "clean_command ?f = lit ''on'' @ [233]" by simp
  from 1 2 3 4 show ?thesis by simp
qed

section \<open>The command parser\<close>

lemma parse_command_tokens:
  "parse_command I line =
     (if line = [] then Inl (ValueError ''Empty command'')
      else if length (tokens line) < 2
      then Inl (ValueError ''Expected: <entity_id> <on|off> [brightness]'')
      else if py_lower I (tokens line ! 1) \<noteq> lit ''on'' \<and> py_lower I (tokens line ! 1) \<noteq> lit ''off''
      then Inl (ValueError ''Action must be ON or OFF'')
      else if 3 \<le> length (tokens line) \<and> py_lower I (tokens line ! 1) = lit ''on'' then
        (case parse_brightness I (py_lower I (py_strip (tokens line ! 2))) of
           Inl e \<Rightarrow> Inl e
         | Inr brightness \<Rightarrow>
             Inr (py_lower I (tokens line ! 0), py_lower I (tokens line ! 1), Some brightness))
      else Inr (py_lower I (tokens line ! 0), py_lower I (tokens line ! 1), None))"
  by (simp add: parse_command_def re_split_ws_py_strip Let_def split: sum.splits)

lemma parse_brightness_Inl:
  "parse_brightness I t = Inl e \<Longrightarrow> \<exists>m. e = ValueError m"
  by (auto simp add: parse_brightness_def split: option.splits if_splits)

lemma parse_brightness_raises:
  "isl (parse_brightness I t) \<longleftrightarrow> raises_ValueError (parse_brightness I t)"
proof (cases "parse_brightness I t")
  case (Inl e)
  then show ?thesis using parse_brightness_Inl [OF Inl] by auto
next
  case (Inr r)
  then show ?thesis by simp
qed

text \<open>Which third tokens the parser refuses.\<close>

lemma parse_brightness_invalid_iff:
  "raises_ValueError (parse_brightness I tok) \<longleftrightarrow>
     (if py_endswith tok 37
      then \<not> (\<exists>pct. py_int I (butlast tok) = Some pct \<and> 0 \<le> pct \<and> pct \<le> 100)
      else \<not> (\<exists>bri. py_int I tok = Some bri \<and> 0 \<le> bri \<and> bri \<le> 255))"
  by (auto simp add: parse_brightness_def split: option.splits)

lemma parse_command_Inl:
  "parse_command I line = Inl e \<Longrightarrow> \<exists>m. e = ValueError m"
  by (auto simp add: parse_command_tokens split: if_splits sum.splits dest: parse_brightness_Inl)

lemma parse_command_raises:
  "isl (parse_command I line) \<longleftrightarrow> raises_ValueError (parse_command I line)"
proof (cases "parse_command I line")
  case (Inl e)
  then show ?thesis using parse_command_Inl [OF Inl] by auto
next
  case (Inr r)
  then show ?thesis by simp
qed

lemma take3_facts:
  assumes "take 3 xs = take 3 ys"
  shows "(length xs < 2 \<longleftrightarrow> length ys < 2)" "(3 \<le> length xs \<longleftrightarrow> 3 \<le> length ys)"
    "2 \<le> length xs \<Longrightarrow> xs ! 0 = ys ! 0 \<and> xs ! 1 = ys ! 1"
    "3 \<le> length xs \<Longrightarrow> xs ! 2 = ys ! 2"
proof -
  have len: "min (length xs) 3 = min (length ys) 3"
    using assms by (metis length_take)
  then show "(length xs < 2 \<longleftrightarrow> length ys < 2)" "(3 \<le> length xs \<longleftrightarrow> 3 \<le> length ys)"
    by linarith+
  have nth: "xs ! i = ys ! i" if "i < 3" "i < length xs" for i
  proof -
    have "take 3 xs ! i = xs ! i" "take 3 ys ! i = ys ! i" using that by simp_all
    with assms show ?thesis by simp
  qed
  show "xs ! 0 = ys ! 0 \<and> xs ! 1 = ys ! 1" if "2 \<le> length xs"
  proof -
    from that have "0 < length xs" "1 < length xs" by linarith+
    then show ?thesis using nth [of 0] nth [of 1] by simp
  qed
  show "xs ! 2 = ys ! 2" if "3 \<le> length xs"
    using that nth [of 2] by simp
qed

lemma parse_command_take3:
  assumes "line \<noteq> []" "line' \<noteq> []" "take 3 (tokens line') = take 3 (tokens line)"
  shows "parse_command I line' = parse_command I line"
proof (cases "length (tokens line) < 2")
  case True
  with take3_facts(1) [OF assms(3)] assms(1,2) show ?thesis
    by (simp add: parse_command_tokens)
next
  case False
  then have 2: "2 \<le> length (tokens line)" "2 \<le> length (tokens line')"
    using take3_facts(1) [OF assms(3)] by simp_all
  have a: "tokens line' ! 0 = tokens line ! 0" "tokens line' ! 1 = tokens line ! 1"
    using take3_facts(3) [OF assms(3)] 2 by simp_all
  have b: "3 \<le> length (tokens line') \<longleftrightarrow> 3 \<le> length (tokens line)"
    by (rule take3_facts(2) [OF assms(3)])
  have c: "3 \<le> length (tokens line) \<Longrightarrow> tokens line' ! 2 = tokens line ! 2"
    using take3_facts(4) [OF assms(3)] b by simp
  show ?thesis
  proof (cases "3 \<le> length (tokens line)")
    case True
    with a b c 2 assms(1,2) show ?thesis
      by (simp add: parse_command_tokens split: sum.splits)
  next
    case no3: False
    with a b 2 assms(1,2) show ?thesis
      by (simp add: parse_command_tokens)
  qed
qed

lemma brightness_100_pct: "parse_brightness I (py_lower I (py_strip (lit ''100%''))) = Inr 255"
proof -
  have "py_strip (lit ''100%'') = lit ''100%''"
    by (simp add: py_strip_def lit_def isspace_def)
  moreover have "py_lower I (lit ''100%'') = lit ''100%''"
    by (simp add: lit_def py_lower_def is_ascii_def ascii_lower_def)
  moreover have "py_endswith (lit ''100%'') 37" "butlast (lit ''100%'') = lit ''100''"
    by (simp_all add: py_endswith_def lit_def)
  moreover have "py_round_div (100 * 255) 100 = 255"
    by (simp add: py_round_div_def Let_def)
  ultimately show ?thesis
    by (simp add: parse_brightness_def int_100)
qed

lemma parse_bulb_100:
  "parse_command I (lit ''light.bulb1 on 100%'') = Inr (lit ''light.bulb1'', lit ''on'', Some 255)"
proof -
  have "lit ''light.bulb1 on 100%'' \<noteq> []" by (simp add: lit_def)
  then show ?thesis
    by (simp add: parse_command_tokens tokens_bulb_100 lower_words brightness_100_pct lit_neqs)
qed

lemma parse_fan_off:
  "parse_command I (lit ''switch.fan1 off'') = Inr (lit ''switch.fan1'', lit ''off'', None)"
proof -
  have "lit ''switch.fan1 off'' \<noteq> []" by (simp add: lit_def)
  then show ?thesis
    by (simp add: parse_command_tokens tokens_fan_off lower_words lit_neqs)
qed

text \<open>
  C5: the third token of a line with action \<open>on\<close>, stripped and lower-cased. If it ends
  with \<open>%\<close>, what stands before must be an integer (one that \<open>int\<close> accepts) from 0 to
  100, or the parser raises; the brightness is then the integer nearest to
  \<open>pct * 255 / 100\<close>, the even one on a tie, from 0 to 255, so 128 for 50 and 255 for 100.
  Otherwise the
  token must be an integer from 0 to 255, or the parser raises, and it is the brightness.
\<close>

theorem brightness_token_rule:
  assumes "line \<noteq> []" and "3 \<le> length (tokens line)"
    and "py_lower I (tokens line ! 1) = lit ''on''"
    and "tok = py_lower I (py_strip (tokens line ! 2))"
    and "entity_id = py_lower I (tokens line ! 0)"
  shows
    "(py_endswith tok 37 \<and> py_int I (butlast tok) = None \<longrightarrow>
        raises_ValueError (parse_command I line))
     \<and> (py_endswith tok 37 \<and> py_int I (butlast tok) = Some pct \<and> \<not> (0 \<le> pct \<and> pct \<le> 100) \<longrightarrow>
        raises_ValueError (parse_command I line))
     \<and> (py_endswith tok 37 \<and> py_int I (butlast tok) = Some pct \<and> 0 \<le> pct \<and> pct \<le> 100 \<longrightarrow>
        (\<exists>b. parse_command I line = Inr (entity_id, lit ''on'', Some b)
           \<and> \<bar>100 * b - pct * 255\<bar> \<le> 50
           \<and> (\<bar>100 * b - pct * 255\<bar> = 50 \<longrightarrow> even b)
           \<and> 0 \<le> b \<and> b \<le> 255
           \<and> (pct = 50 \<longrightarrow> b = 128) \<and> (pct = 100 \<longrightarrow> b = 255)))
     \<and> (\<not> py_endswith tok 37 \<and> py_int I tok = None \<longrightarrow>
        raises_ValueError (parse_command I line))
     \<and> (\<not> py_endswith tok 37 \<and> py_int I tok = Some v \<and> \<not> (0 \<le> v \<and> v \<le> 255) \<longrightarrow>
        raises_ValueError (parse_command I line))
     \<and> (\<not> py_endswith tok 37 \<and> py_int I tok = Some v \<and> 0 \<le> v \<and> v \<le> 255 \<longrightarrow>
        parse_command I line = Inr (entity_id, lit ''on'', Some v))"
proof -
  have pc: "parse_command I line =
      (case parse_brightness I tok of
         Inl e \<Rightarrow> Inl e
       | Inr brightness \<Rightarrow> Inr (entity_id, lit ''on'', Some brightness))"
    using assms by (simp add: parse_command_tokens lit_neqs split: sum.splits)
  have r50: "py_round_div (50 * 255) 100 = 128" and r100: "py_round_div (100 * 255) 100 = 255"
    by (simp_all add: py_round_div_def Let_def)
  show ?thesis
    using py_round_div_100 [of "pct * 255"] r50 r100
    by (auto simp add: pc parse_brightness_def)
qed

theorem brightness_token_rule_witness:
  "parse_command ascii_interp (lit ''light.bulb1 on 50%'') =
     Inr (lit ''light.bulb1'', lit ''on'', Some 128)
   \<and> raises_ValueError (parse_command ascii_interp (lit ''light.bulb1 on 300''))
   \<and> raises_ValueError (parse_command ascii_interp (lit ''light.bulb1 on 150%''))"
proof -
  have a1: "lit ''light.bulb1 on 50%'' \<noteq> []" by (rule lit_nonempty)
  have a2: "3 \<le> length (tokens (lit ''light.bulb1 on 50%''))"
    by (simp add: tokens_examples)
  have a3: "py_lower ascii_interp (tokens (lit ''light.bulb1 on 50%'') ! 1) = lit ''on''"
    by (simp add: tokens_examples lower_words)
  have a4: "lit ''50%'' = py_lower ascii_interp (py_strip (tokens (lit ''light.bulb1 on 50%'') ! 2))"
    by (simp add: tokens_examples lower_examples)
  have a5: "lit ''light.bulb1'' = py_lower ascii_interp (tokens (lit ''light.bulb1 on 50%'') ! 0)"
    by (simp add: tokens_examples lower_words)
  have "py_endswith (lit ''50%'') 37 \<and> py_int ascii_interp (butlast (lit ''50%'')) = Some 50
      \<and> (0::int) \<le> 50 \<and> (50::int) \<le> 100"
    by (simp add: endswith_examples int_examples)
  with brightness_token_rule [OF a1 a2 a3 a4 a5, of 50 0]
  have a: "parse_command ascii_interp (lit ''light.bulb1 on 50%'') =
     Inr (lit ''light.bulb1'', lit ''on'', Some 128)"
    by blast
  have b1: "lit ''light.bulb1 on 300'' \<noteq> []" by (rule lit_nonempty)
  have b2: "3 \<le> length (tokens (lit ''light.bulb1 on 300''))"
    by (simp add: tokens_examples)
  have b3: "py_lower ascii_interp (tokens (lit ''light.bulb1 on 300'') ! 1) = lit ''on''"
    by (simp add: tokens_examples lower_words)
  have b4: "lit ''300'' = py_lower ascii_interp (py_strip (tokens (lit ''light.bulb1 on 300'') ! 2))"
    by (simp add: tokens_examples lower_examples)
  have b5: "lit ''light.bulb1'' = py_lower ascii_interp (tokens (lit ''light.bulb1 on 300'') ! 0)"
    by (simp add: tokens_examples lower_words)
  have "\<not> py_endswith (lit ''300'') 37 \<and> py_int ascii_interp (lit ''300'') = Some 300
      \<and> \<not> ((0::int) \<le> 300 \<and> (300::int) \<le> 255)"
    by (simp add: endswith_examples int_examples)
  with brightness_token_rule [OF b1 b2 b3 b4 b5, of 0 300]
  have b: "raises_ValueError (parse_command ascii_interp (lit ''light.bulb1 on 300''))"
    by blast
  have c1: "lit ''light.bulb1 on 150%'' \<noteq> []" by (rule lit_nonempty)
  have c2: "3 \<le> length (tokens (lit ''light.bulb1 on 150%''))"
    by (simp add: tokens_examples)
  have c3: "py_lower ascii_interp (tokens (lit ''light.bulb1 on 150%'') ! 1) = lit ''on''"
    by (simp add: tokens_examples lower_words)
  have c4: "lit ''150%'' = py_lower ascii_interp (py_strip (tokens (lit ''light.bulb1 on 150%'') ! 2))"
    by (simp add: tokens_examples lower_examples)
  have c5: "lit ''light.bulb1'' = py_lower ascii_interp (tokens (lit ''light.bulb1 on 150%'') ! 0)"
    by (simp add: tokens_examples lower_words)
  have "py_endswith (lit ''150%'') 37 \<and> py_int ascii_interp (butlast (lit ''150%'')) = Some 150
      \<and> \<not> ((0::int) \<le> 150 \<and> (150::int) \<le> 100)"
    by (simp add: endswith_examples int_examples)
  with brightness_token_rule [OF c1 c2 c3 c4 c5, of 150 0]
  have c: "raises_ValueError (parse_command ascii_interp (lit ''light.bulb1 on 150%''))"
    by blast
  from a b c show ?thesis by simp
qed

text \<open>
  C6: the parser raises its \<open>ValueError\<close> (the ParseError), and nothing else, exactly
  when the line is empty, or has fewer than two tokens, or its second token lower-cased
  is neither \<open>on\<close> nor \<open>off\<close>, or a third token is there with action \<open>on\<close> and is no valid
  brightness: it ends with \<open>%\<close> and what stands before is no integer from 0 to 100, or
  it does not end with \<open>%\<close> and is no integer from 0 to 255. When it returns, the
  entity reference is the first token lower-cased and the action the second token
  lower-cased. Two lines with the same first three tokens parse alike: tokens after the
  third are ignored.
\<close>

theorem parser_contract:
  "(raises_ValueError (parse_command I line) \<longleftrightarrow>
      line = [] \<or> length (tokens line) < 2
      \<or> (py_lower I (tokens line ! 1) \<noteq> lit ''on'' \<and> py_lower I (tokens line ! 1) \<noteq> lit ''off'')
      \<or> (3 \<le> length (tokens line) \<and> py_lower I (tokens line ! 1) = lit ''on''
           \<and> (if py_endswith (py_lower I (py_strip (tokens line ! 2))) 37
                then \<not> (\<exists>pct. py_int I (butlast (py_lower I (py_strip (tokens line ! 2)))) = Some pct
                          \<and> 0 \<le> pct \<and> pct \<le> 100)
                else \<not> (\<exists>bri. py_int I (py_lower I (py_strip (tokens line ! 2))) = Some bri
                          \<and> 0 \<le> bri \<and> bri \<le> 255))))
   \<and> (isl (parse_command I line) \<longleftrightarrow> raises_ValueError (parse_command I line))
   \<and> (\<forall>entity_id action brightness.
         parse_command I line = Inr (entity_id, action, brightness) \<longrightarrow>
         entity_id = py_lower I (tokens line ! 0) \<and> action = py_lower I (tokens line ! 1))
   \<and> (\<forall>line'. line \<noteq> [] \<and> line' \<noteq> [] \<and> take 3 (tokens line') = take 3 (tokens line) \<longrightarrow>
         parse_command I line' = parse_command I line)"
proof -
  have 1: "raises_ValueError (parse_command I line) \<longleftrightarrow>
      line = [] \<or> length (tokens line) < 2
      \<or> (py_lower I (tokens line ! 1) \<noteq> lit ''on'' \<and> py_lower I (tokens line ! 1) \<noteq> lit ''off'')
      \<or> (3 \<le> length (tokens line) \<and> py_lower I (tokens line ! 1) = lit ''on''
           \<and> raises_ValueError (parse_brightness I (py_lower I (py_strip (tokens line ! 2)))))"
    by (auto simp add: parse_command_tokens split: sum.splits dest: parse_brightness_Inl)
  have 2: "entity_id = py_lower I (tokens line ! 0) \<and> action = py_lower I (tokens line ! 1)"
    if "parse_command I line = Inr (entity_id, action, brightness)" for entity_id action brightness
    using that by (auto simp add: parse_command_tokens split: if_splits sum.splits)
  from 1 2 parse_command_raises [of I line] parse_command_take3 [of line _ I]
  show ?thesis
    unfolding parse_brightness_invalid_iff [symmetric] by blast
qed

theorem parser_contract_witness:
  "raises_ValueError (parse_command ascii_interp [])
   \<and> raises_ValueError (parse_command ascii_interp (lit ''onlyone''))
   \<and> raises_ValueError (parse_command ascii_interp (lit ''light.x maybe''))
   \<and> raises_ValueError (parse_command ascii_interp (lit ''light.x on abc''))
   \<and> raises_ValueError (parse_command ascii_interp (lit ''light.x on 256''))
   \<and> raises_ValueError (parse_command ascii_interp (lit ''light.x on 101%''))
   \<and> parse_command ascii_interp (lit ''Light.Bulb1  ON 7 extra'') =
       parse_command ascii_interp (lit ''Light.Bulb1  ON 7'')
   \<and> \<not> raises_ValueError (parse_command ascii_interp (lit ''Light.Bulb1  ON 7''))"
proof -
  have 1: "raises_ValueError (parse_command ascii_interp [])"
    using parser_contract [of ascii_interp "[]", THEN conjunct1] by simp
  have 2: "raises_ValueError (parse_command ascii_interp (lit ''onlyone''))"
    using parser_contract [of ascii_interp "lit ''onlyone''", THEN conjunct1]
    by (simp add: tokens_examples)
  have 3: "raises_ValueError (parse_command ascii_interp (lit ''light.x maybe''))"
    using parser_contract [of ascii_interp "lit ''light.x maybe''", THEN conjunct1]
    by (simp add: tokens_examples lower_examples maybe_not_action)
  have 4: "raises_ValueError (parse_command ascii_interp (lit ''light.x on abc''))"
    using parser_contract [of ascii_interp "lit ''light.x on abc''", THEN conjunct1]
    by (simp add: invalid_examples lower_words)
  have 5: "raises_ValueError (parse_command ascii_interp (lit ''light.x on 256''))"
    using parser_contract [of ascii_interp "lit ''light.x on 256''", THEN conjunct1]
    by (simp add: invalid_examples lower_words)
  have 6: "raises_ValueError (parse_command ascii_interp (lit ''light.x on 101%''))"
    using parser_contract [of ascii_interp "lit ''light.x on 101%''", THEN conjunct1]
    by (simp add: invalid_examples lower_words)
  have "lit ''Light.Bulb1  ON 7'' \<noteq> [] \<and> lit ''Light.Bulb1  ON 7 extra'' \<noteq> []
      \<and> take 3 (tokens (lit ''Light.Bulb1  ON 7 extra'')) = take 3 (tokens (lit ''Light.Bulb1  ON 7''))"
    by (simp add: tokens_examples lit_nonempty)
  with parser_contract [of ascii_interp "lit ''Light.Bulb1  ON 7''"]
  have 7: "parse_command ascii_interp (lit ''Light.Bulb1  ON 7 extra'') =
       parse_command ascii_interp (lit ''Light.Bulb1  ON 7'')"
    by blast
  have 8: "\<not> raises_ValueError (parse_command ascii_interp (lit ''Light.Bulb1  ON 7''))"
    using parser_contract [of ascii_interp "lit ''Light.Bulb1  ON 7''", THEN conjunct1]
    by (simp add: lit_nonempty tokens_examples lower_examples lit_neqs endswith_examples
        int_examples)
  from 1 2 3 4 5 6 7 8 show ?thesis by simp
qed

text \<open>
  C7: a parsed command with action \<open>off\<close> has no brightness, and a line whose second
  token is \<open>off\<close> parses whatever follows it: a third token, valid as a brightness or
  not, is ignored.
\<close>

theorem off_ignores_brightness:
  "(\<forall>entity_id brightness.
       parse_command I line = Inr (entity_id, lit ''off'', brightness) \<longrightarrow> brightness = None)
   \<and> (line \<noteq> [] \<and> 2 \<le> length (tokens line) \<and> py_lower I (tokens line ! 1) = lit ''off'' \<longrightarrow>
        parse_command I line = Inr (py_lower I (tokens line ! 0), lit ''off'', None))"
  by (auto simp add: parse_command_tokens lit_neqs split: if_splits sum.splits)

theorem off_ignores_brightness_witness:
  "parse_command ascii_interp (lit ''switch.fan1 off 200'') =
     Inr (lit ''switch.fan1'', lit ''off'', None)
   \<and> parse_command ascii_interp (lit ''switch.fan1 off 9x%'') =
     Inr (lit ''switch.fan1'', lit ''off'', None)"
  using off_ignores_brightness [of ascii_interp "lit ''switch.fan1 off 200''", THEN conjunct2]
    off_ignores_brightness [of ascii_interp "lit ''switch.fan1 off 9x%''", THEN conjunct2]
  by (simp add: lit_nonempty tokens_examples lower_words)

section \<open>The service mapper\<close>

lemma domain_from_entity_eq:
  "domain_from_entity e =
     (if 46 \<in> set e then Inr (domain_prefix e)
      else Inl (ValueError ''entity_id must include domain''))"
  by (simp add: domain_from_entity_def py_split1_def domain_prefix_def)

text \<open>
  C3, as the code has it: the mapper raises its \<open>ValueError\<close> (the DomainError) exactly
  when the entity reference holds no \<open>.\<close> at all. A reference with a \<open>.\<close> and an empty
  prefix before it, such as one beginning with \<open>.\<close>, is accepted and mapped to the
  fallback domain \<open>homeassistant\<close>.
\<close>

theorem mapper_fails_iff_no_dot:
  "(raises_ValueError (build_service_call entity_id action brightness) \<longleftrightarrow> 46 \<notin> set entity_id)
   \<and> (46 \<in> set entity_id \<and> domain_prefix entity_id = [] \<longrightarrow>
        (\<exists>service. build_service_call entity_id action brightness =
           Inr (lit ''homeassistant'', service, [''entity_id'' \<mapsto> PyStr entity_id])))"
  by (simp add: build_service_call_def domain_from_entity_eq Let_def lit_neqs)

theorem mapper_fails_iff_no_dot_witness:
  "raises_ValueError (build_service_call (lit ''noseparator'') (lit ''on'') None)
   \<and> \<not> raises_ValueError (build_service_call (lit ''light.bulb1'') (lit ''on'') None)"
  using mapper_fails_iff_no_dot [of "lit ''noseparator''" "lit ''on''" None]
        mapper_fails_iff_no_dot [of "lit ''light.bulb1''" "lit ''on''" None]
  by (simp add: lit_def)

text \<open>
  C3 as stated fails: \<open>.foo\<close> has no non-empty domain prefix, and the mapper returns a
  service call for it.
\<close>

theorem empty_domain_not_rejected:
  "\<not> has_domain_prefix (lit ''.foo'')
   \<and> build_service_call (lit ''.foo'') (lit ''on'') None =
       Inr (lit ''homeassistant'', lit ''turn_on'', [''entity_id'' \<mapsto> PyStr (lit ''.foo'')])"
  by (simp add: has_domain_prefix_def domain_prefix_def build_service_call_def
      domain_from_entity_def py_split1_def lit_def)

text \<open>
  C8: for an entity reference with a \<open>.\<close>, the service domain follows the table
  (\<open>light\<close>, \<open>switch\<close>, otherwise \<open>homeassistant\<close>), the service is \<open>turn_on\<close> for
  action \<open>on\<close> and \<open>turn_off\<close> for \<open>off\<close>, the payload holds the whole entity
  reference under \<open>entity_id\<close> and no key but \<open>entity_id\<close> and \<open>brightness\<close>, and it
  holds \<open>brightness\<close> exactly when the prefix is \<open>light\<close>, the action \<open>on\<close> and a
  brightness is given, with that value.
\<close>

theorem mapper_table:
  assumes "46 \<in> set entity_id"
  shows "\<exists>service data.
      build_service_call entity_id action brightness =
        Inr (service_domain (domain_prefix entity_id), service, data)
      \<and> (action = lit ''on'' \<longrightarrow> service = lit ''turn_on'')
      \<and> (action = lit ''off'' \<longrightarrow> service = lit ''turn_off'')
      \<and> data ''entity_id'' = Some (PyStr entity_id)
      \<and> dom data \<subseteq> {''entity_id'', ''brightness''}
      \<and> (''brightness'' \<in> dom data \<longleftrightarrow>
           domain_prefix entity_id = lit ''light'' \<and> action = lit ''on'' \<and> brightness \<noteq> None)
      \<and> (\<forall>v. brightness = Some v \<longrightarrow> ''brightness'' \<in> dom data \<longrightarrow>
             data ''brightness'' = Some (PyInt v))"
  using assms
  by (auto simp add: build_service_call_def domain_from_entity_eq Let_def service_domain_def
      lit_neqs split: option.splits)

theorem mapper_table_witness:
  "46 \<in> set (lit ''switch.fan1'')
   \<and> (\<exists>data. build_service_call (lit ''switch.fan1'') (lit ''off'') None =
          Inr (lit ''switch'', lit ''turn_off'', data)
        \<and> data ''entity_id'' = Some (PyStr (lit ''switch.fan1''))
        \<and> ''brightness'' \<notin> dom data)"
proof -
  have h: "46 \<in> set (lit ''switch.fan1'')" by (simp add: lit_def)
  show ?thesis
    using h mapper_table [OF h, of "lit ''off''" None]
    by (auto simp add: service_domain_def domain_prefix_def lit_def)
qed

text \<open>
  C10: an entity reference with more than one \<open>.\<close> is not refused: its domain is the
  prefix before the first \<open>.\<close>, and the payload carries the whole reference, unchanged,
  under \<open>entity_id\<close>.
\<close>

theorem mapper_multi_dot:
  assumes "1 < count_list entity_id 46"
  shows "domain_from_entity entity_id = Inr (domain_prefix entity_id)
     \<and> (\<exists>service data.
          build_service_call entity_id action brightness =
            Inr (service_domain (domain_prefix entity_id), service, data)
          \<and> data ''entity_id'' = Some (PyStr entity_id))"
proof -
  have "46 \<in> set entity_id"
    using assms by (metis count_list_0_iff not_less_zero)
  then show ?thesis
    by (auto simp add: build_service_call_def domain_from_entity_eq Let_def service_domain_def
        split: option.splits)
qed

theorem mapper_multi_dot_witness:
  "1 < count_list (lit ''light.a.b'') 46
   \<and> domain_from_entity (lit ''light.a.b'') = Inr (lit ''light'')
   \<and> (\<exists>service data.
         build_service_call (lit ''light.a.b'') (lit ''on'') (Some 7) = Inr (lit ''light'', service, data)
         \<and> data ''entity_id'' = Some (PyStr (lit ''light.a.b'')))"
proof -
  have h: "1 < count_list (lit ''light.a.b'') 46" by (simp add: lit_def)
  show ?thesis
    using h mapper_multi_dot [OF h, of "lit ''on''" "Some 7"]
    by (simp add: lit_def service_domain_def domain_prefix_def)
qed

section \<open>Runs of the connection handler\<close>

lemma build_service_call_Inl:
  "build_service_call e a b = Inl x \<Longrightarrow> \<exists>m. x = ValueError m"
  by (auto simp add: build_service_call_def domain_from_entity_def Let_def split: if_splits)

lemma build_bulb_255:
  "build_service_call (lit ''light.bulb1'') (lit ''on'') (Some 255) =
     Inr (lit ''light'', lit ''turn_on'',
          [''entity_id'' \<mapsto> PyStr (lit ''light.bulb1''), ''brightness'' \<mapsto> PyInt 255])"
  by (simp add: build_service_call_def domain_from_entity_def py_split1_def lit_def)

lemma build_fan_off:
  "build_service_call (lit ''switch.fan1'') (lit ''off'') None =
     Inr (lit ''switch'', lit ''turn_off'', [''entity_id'' \<mapsto> PyStr (lit ''switch.fan1'')])"
  by (simp add: build_service_call_def domain_from_entity_def py_split1_def lit_def)

lemma handle_read_failure:
  "handle I ReadFailure reply = [fatal_log, ProcessExit 1]"
  by (simp add: handle_def handle_try_def fatal_log_def)

lemma handle_parse_error:
  assumes "isl (parse_command I (clean_command raw))"
  shows "handle I (Line raw) reply = [Log INFO ''RX from'', Log WARNING ''Input error'', SocketClose]"
proof -
  from assms obtain e where "parse_command I (clean_command raw) = Inl e"
    by (cases "parse_command I (clean_command raw)") auto
  moreover from this obtain m where "e = ValueError m"
    using parse_command_Inl by blast
  ultimately show ?thesis
    by (simp add: handle_def handle_try_def)
qed

lemma handle_map_error:
  assumes "parse_command I (clean_command raw) = Inr (e, a, b)"
    and "isl (build_service_call e a b)"
  shows "handle I (Line raw) reply =
      [Log INFO ''RX from'', Log WARNING ''build service error'', SocketClose]"
proof -
  from assms(2) obtain x where "build_service_call e a b = Inl x"
    by (cases "build_service_call e a b") auto
  moreover from this obtain m where "x = ValueError m"
    using build_service_call_Inl by blast
  ultimately show ?thesis
    using assms(1) by (simp add: handle_def handle_try_def)
qed

lemma handle_invoke:
  assumes "parse_command I (clean_command raw) = Inr (e, a, b)"
    and "build_service_call e a b = Inr (d, s, p)"
  shows "handle I (Line raw) reply =
      [Log INFO ''RX from'', Log INFO ''json'', Log INFO ''HA call'', Log INFO ''url call'',
       HttpPost d s p]
      @ (if call_fails reply then [fatal_log, ProcessExit 1] else [Log INFO ''OK'', SocketClose])"
  using assms
  by (cases reply) (simp_all add: handle_def handle_try_def call_ha_service_def fatal_log_def)

lemma handle_cases:
  "(rd = ReadFailure \<and> handle I rd reply = [fatal_log, ProcessExit 1])
   \<or> (rd \<noteq> ReadFailure
       \<and> (\<exists>w. handle I rd reply = [Log INFO ''RX from'', Log WARNING w, SocketClose]))
   \<or> (rd \<noteq> ReadFailure \<and> call_fails reply
       \<and> (\<exists>d s p. handle I rd reply =
            [Log INFO ''RX from'', Log INFO ''json'', Log INFO ''HA call'', Log INFO ''url call'',
             HttpPost d s p, fatal_log, ProcessExit 1]))
   \<or> (rd \<noteq> ReadFailure \<and> \<not> call_fails reply
       \<and> (\<exists>d s p. handle I rd reply =
            [Log INFO ''RX from'', Log INFO ''json'', Log INFO ''HA call'', Log INFO ''url call'',
             HttpPost d s p, Log INFO ''OK'', SocketClose]))"
proof (cases rd)
  case ReadFailure
  then show ?thesis by (simp add: handle_read_failure)
next
  case (Line raw)
  show ?thesis
  proof (cases "parse_command I (clean_command raw)")
    case (Inl e)
    then show ?thesis using handle_parse_error [of I raw reply] Line by simp
  next
    case (Inr r)
    then obtain e a b where p: "parse_command I (clean_command raw) = Inr (e, a, b)"
      by (cases r) auto
    show ?thesis
    proof (cases "build_service_call e a b")
      case (Inl x)
      then show ?thesis using handle_map_error [OF p, of reply] Line by simp
    next
      case (Inr c)
      then obtain d s q where "build_service_call e a b = Inr (d, s, q)"
        by (cases c) auto
      from handle_invoke [OF p this, of reply] Line show ?thesis
        by (cases "call_fails reply") simp_all
    qed
  qed
qed

text \<open>
  C1, as the code has it: when the frame parses and maps and the outbound call fails (a
  status from 400 on, or a transport failure), the exception reaches the
  \<open>except Exception\<close> clause of the handler: the run is the four info logs, the POST, the
  log of a fatal error and \<open>os._exit(1)\<close>. The connection ends closed fatal, not closed
  clean: the process is terminated.
\<close>

theorem invoke_failure_is_fatal:
  assumes "parse_command I (clean_command raw) = Inr (entity_id, action, brightness)"
    and "build_service_call entity_id action brightness = Inr (domain, service, data)"
    and "call_fails reply"
  shows "handle I (Line raw) reply =
      [Log INFO ''RX from'', Log INFO ''json'', Log INFO ''HA call'', Log INFO ''url call'',
       HttpPost domain service data, fatal_log, ProcessExit 1]
     \<and> closed_fatal (handle I (Line raw) reply)
     \<and> \<not> closed_clean (handle I (Line raw) reply)"
  using handle_invoke [OF assms(1,2), of reply] assms(3)
  by (simp add: closed_fatal_def closed_clean_def process_exited_def)

theorem invoke_failure_is_fatal_witness:
  "call_fails (Response 503)
   \<and> handle ascii_interp (Line frame_fan) (Response 503) =
      [Log INFO ''RX from'', Log INFO ''json'', Log INFO ''HA call'', Log INFO ''url call'',
       HttpPost (lit ''switch'') (lit ''turn_off'') [''entity_id'' \<mapsto> PyStr (lit ''switch.fan1'')],
       fatal_log, ProcessExit 1]"
proof -
  have 1: "parse_command ascii_interp (clean_command frame_fan) =
      Inr (lit ''switch.fan1'', lit ''off'', None)"
    by (simp add: clean_frame_fan parse_fan_off)
  have 3: "call_fails (Response 503)" by simp
  from invoke_failure_is_fatal [OF 1 build_fan_off 3] 3 show ?thesis by simp
qed

text \<open>
  C1 as stated fails: the frame parses and maps, the hub answers 404, and the run ends
  with the exit of the process, not closed clean.
\<close>

theorem rejected_call_not_closed_clean:
  "parse_command ascii_interp (clean_command frame_fan) = Inr (lit ''switch.fan1'', lit ''off'', None)
   \<and> build_service_call (lit ''switch.fan1'') (lit ''off'') None =
       Inr (lit ''switch'', lit ''turn_off'', [''entity_id'' \<mapsto> PyStr (lit ''switch.fan1'')])
   \<and> call_fails (Response 404)
   \<and> \<not> closed_clean (handle ascii_interp (Line frame_fan) (Response 404))
   \<and> last (handle ascii_interp (Line frame_fan) (Response 404)) = ProcessExit 1"
proof -
  have 1: "parse_command ascii_interp (clean_command frame_fan) =
      Inr (lit ''switch.fan1'', lit ''off'', None)"
    by (simp add: clean_frame_fan parse_fan_off)
  from handle_invoke [OF 1 build_fan_off, of "Response 404"] 1 build_fan_off show ?thesis
    by (simp add: closed_clean_def process_exited_def socket_closed_def fatal_log_def)
qed

text \<open>
  C2, as the code has it: the handler closes the socket exactly on the runs that do not
  end the process, and then as its last step: after a successful call, after a parse
  error, after a mapping error. The fatal path, which a failed read and a failed outbound
  call take, ends with \<open>os._exit(1)\<close> and without the close.
\<close>

theorem close_runs_unless_fatal:
  "(socket_closed (handle I rd reply) \<longleftrightarrow> \<not> process_exited (handle I rd reply))
   \<and> (socket_closed (handle I rd reply) \<longrightarrow> last (handle I rd reply) = SocketClose)
   \<and> (process_exited (handle I rd reply) \<longrightarrow> last (handle I rd reply) = ProcessExit 1)
   \<and> (process_exited (handle I rd reply) \<longleftrightarrow>
        rd = ReadFailure \<or> (outbound_calls (handle I rd reply) \<noteq> [] \<and> call_fails reply))"
proof -
  consider
    (read) "rd = ReadFailure" "handle I rd reply = [fatal_log, ProcessExit 1]"
  | (input) w where "rd \<noteq> ReadFailure"
      "handle I rd reply = [Log INFO ''RX from'', Log WARNING w, SocketClose]"
  | (failed) d s p where "rd \<noteq> ReadFailure" "call_fails reply"
      "handle I rd reply =
         [Log INFO ''RX from'', Log INFO ''json'', Log INFO ''HA call'', Log INFO ''url call'',
          HttpPost d s p, fatal_log, ProcessExit 1]"
  | (ok) d s p where "rd \<noteq> ReadFailure" "\<not> call_fails reply"
      "handle I rd reply =
         [Log INFO ''RX from'', Log INFO ''json'', Log INFO ''HA call'', Log INFO ''url call'',
          HttpPost d s p, Log INFO ''OK'', SocketClose]"
    using handle_cases [of rd I reply] by blast
  then show ?thesis
    by cases (simp_all add: socket_closed_def process_exited_def fatal_log_def)
qed

theorem close_runs_unless_fatal_witness:
  "socket_closed (handle ascii_interp (Line frame_fan) (Response 200))
   \<and> last (handle ascii_interp (Line frame_fan) (Response 200)) = SocketClose
   \<and> \<not> process_exited (handle ascii_interp (Line frame_fan) (Response 200))"
proof -
  have 1: "parse_command ascii_interp (clean_command frame_fan) =
      Inr (lit ''switch.fan1'', lit ''off'', None)"
    by (simp add: clean_frame_fan parse_fan_off)
  have "socket_closed (handle ascii_interp (Line frame_fan) (Response 200))"
    using handle_invoke [OF 1 build_fan_off, of "Response 200"]
    by (simp add: socket_closed_def)
  with close_runs_unless_fatal [of ascii_interp "Line frame_fan" "Response 200"]
  show ?thesis by simp
qed

text \<open>
  C2 as stated fails: after a transport failure of the call, and after a failed read,
  the run ends with the exit of the process and the socket was not closed.
\<close>

theorem fatal_path_skips_close:
  "\<not> socket_closed (handle ascii_interp (Line frame_fan) TransportFailure)
   \<and> last (handle ascii_interp (Line frame_fan) TransportFailure) = ProcessExit 1
   \<and> \<not> socket_closed (handle ascii_interp ReadFailure (Response 200))
   \<and> last (handle ascii_interp ReadFailure (Response 200)) = ProcessExit 1"
proof -
  have 1: "parse_command ascii_interp (clean_command frame_fan) =
      Inr (lit ''switch.fan1'', lit ''off'', None)"
    by (simp add: clean_frame_fan parse_fan_off)
  from handle_invoke [OF 1 build_fan_off, of TransportFailure]
    handle_read_failure [of ascii_interp "Response 200"]
  show ?thesis
    by (simp add: socket_closed_def fatal_log_def)
qed

text \<open>
  C4: a frame whose extracted text is \<open>light.bulb1 on 100%\<close> (any header without letters
  before that text and a newline after it is such a frame) makes exactly one outbound
  call, \<open>light.turn_on\<close> with the payload of \<open>entity_id\<close> \<open>light.bulb1\<close> and
  \<open>brightness\<close> 255, and the connection is closed after it, whatever the hub replies:
  clean, by the handler, when the call succeeds, and fatal, with the process, when it
  fails. A frame whose extracted line does not parse makes no outbound call and the
  connection is closed clean.
\<close>

theorem bulb_end_to_end:
  "(clean_command raw = lit ''light.bulb1 on 100%'' \<longrightarrow>
      handle I (Line raw) reply =
        [Log INFO ''RX from'', Log INFO ''json'', Log INFO ''HA call'', Log INFO ''url call'',
         HttpPost (lit ''light'') (lit ''turn_on'')
           [''entity_id'' \<mapsto> PyStr (lit ''light.bulb1''), ''brightness'' \<mapsto> PyInt 255]]
        @ (if call_fails reply then [fatal_log, ProcessExit 1] else [Log INFO ''OK'', SocketClose])
      \<and> outbound_calls (handle I (Line raw) reply) =
        [(lit ''light'', lit ''turn_on'',
          [''entity_id'' \<mapsto> PyStr (lit ''light.bulb1''), ''brightness'' \<mapsto> PyInt 255])]
      \<and> (closed_clean (handle I (Line raw) reply) \<or> closed_fatal (handle I (Line raw) reply))
      \<and> (\<not> call_fails reply \<longrightarrow>
            closed_clean (handle I (Line raw) reply) \<and> last (handle I (Line raw) reply) = SocketClose)
      \<and> (call_fails reply \<longrightarrow>
            closed_fatal (handle I (Line raw) reply)
            \<and> last (handle I (Line raw) reply) = ProcessExit 1))
   \<and> (list_all (\<lambda>b. \<not> is_ascii_letter b) hdr \<longrightarrow>
        clean_command (hdr @ ascii_bytes ''light.bulb1 on 100%'' @ [0x0A]) = lit ''light.bulb1 on 100%'')
   \<and> (raises_ValueError (parse_command I (clean_command raw)) \<longrightarrow>
        outbound_calls (handle I (Line raw) reply) = []
        \<and> closed_clean (handle I (Line raw) reply)
        \<and> last (handle I (Line raw) reply) = SocketClose)"
proof -
  have a: "handle I (Line raw) reply =
        [Log INFO ''RX from'', Log INFO ''json'', Log INFO ''HA call'', Log INFO ''url call'',
         HttpPost (lit ''light'') (lit ''turn_on'')
           [''entity_id'' \<mapsto> PyStr (lit ''light.bulb1''), ''brightness'' \<mapsto> PyInt 255]]
        @ (if call_fails reply then [fatal_log, ProcessExit 1] else [Log INFO ''OK'', SocketClose])
      \<and> outbound_calls (handle I (Line raw) reply) =
        [(lit ''light'', lit ''turn_on'',
          [''entity_id'' \<mapsto> PyStr (lit ''light.bulb1''), ''brightness'' \<mapsto> PyInt 255])]
      \<and> (closed_clean (handle I (Line raw) reply) \<or> closed_fatal (handle I (Line raw) reply))
      \<and> (\<not> call_fails reply \<longrightarrow>
            closed_clean (handle I (Line raw) reply) \<and> last (handle I (Line raw) reply) = SocketClose)
      \<and> (call_fails reply \<longrightarrow>
            closed_fatal (handle I (Line raw) reply)
            \<and> last (handle I (Line raw) reply) = ProcessExit 1)"
    if "clean_command raw = lit ''light.bulb1 on 100%''"
  proof -
    have 1: "parse_command I (clean_command raw) = Inr (lit ''light.bulb1'', lit ''on'', Some 255)"
      using that by (simp add: parse_bulb_100)
    show ?thesis
      using handle_invoke [OF 1 build_bulb_255, of reply]
      by (simp add: closed_clean_def closed_fatal_def socket_closed_def process_exited_def
          fatal_log_def)
  qed
  have b: "outbound_calls (handle I (Line raw) reply) = []
        \<and> closed_clean (handle I (Line raw) reply)
        \<and> last (handle I (Line raw) reply) = SocketClose"
    if "raises_ValueError (parse_command I (clean_command raw))"
  proof -
    from that have "isl (parse_command I (clean_command raw))"
      by (simp add: parse_command_raises)
    from handle_parse_error [OF this, of reply] show ?thesis
      by (simp add: closed_clean_def socket_closed_def process_exited_def)
  qed
  from a b clean_after_header [of hdr] show ?thesis by blast
qed

theorem bulb_end_to_end_witness:
  "clean_command frame_bulb = lit ''light.bulb1 on 100%''
   \<and> outbound_calls (handle ascii_interp (Line frame_bulb) (Response 200)) =
        [(lit ''light'', lit ''turn_on'',
          [''entity_id'' \<mapsto> PyStr (lit ''light.bulb1''), ''brightness'' \<mapsto> PyInt 255])]
   \<and> closed_clean (handle ascii_interp (Line frame_bulb) (Response 200))
   \<and> last (handle ascii_interp (Line frame_bulb) (Response 200)) = SocketClose
   \<and> outbound_calls (handle ascii_interp (Line frame_bulb) (Response 500)) =
        [(lit ''light'', lit ''turn_on'',
          [''entity_id'' \<mapsto> PyStr (lit ''light.bulb1''), ''brightness'' \<mapsto> PyInt 255])]
   \<and> closed_fatal (handle ascii_interp (Line frame_bulb) (Response 500))
   \<and> last (handle ascii_interp (Line frame_bulb) (Response 500)) = ProcessExit 1
   \<and> raises_ValueError (parse_command ascii_interp (clean_command (ascii_bytes ''onlyone'')))
   \<and> outbound_calls (handle ascii_interp (Line (ascii_bytes ''onlyone'')) (Response 200)) = []
   \<and> closed_clean (handle ascii_interp (Line (ascii_bytes ''onlyone'')) (Response 200))"
proof -
  have c: "clean_command (ascii_bytes ''onlyone'') = lit ''onlyone''"
    by (simp add: clean_command_def ascii_bytes_def is_ascii_letter_def decode_ignore_def
        py_strip_def isspace_def lit_def)
  have "lit ''onlyone'' \<noteq> []" by (rule lit_nonempty)
  then have r: "raises_ValueError (parse_command ascii_interp (clean_command (ascii_bytes ''onlyone'')))"
    by (simp add: c parse_command_tokens tokens_examples)
  have n: "\<not> call_fails (Response 200)" and f: "call_fails (Response 500)" by simp_all
  from bulb_end_to_end [of frame_bulb ascii_interp "Response 200" "[]"] clean_frame_bulb n
  have 1: "outbound_calls (handle ascii_interp (Line frame_bulb) (Response 200)) =
        [(lit ''light'', lit ''turn_on'',
          [''entity_id'' \<mapsto> PyStr (lit ''light.bulb1''), ''brightness'' \<mapsto> PyInt 255])]
      \<and> closed_clean (handle ascii_interp (Line frame_bulb) (Response 200))
      \<and> last (handle ascii_interp (Line frame_bulb) (Response 200)) = SocketClose"
    by blast
  from bulb_end_to_end [of frame_bulb ascii_interp "Response 500" "[]"] clean_frame_bulb f
  have 2: "outbound_calls (handle ascii_interp (Line frame_bulb) (Response 500)) =
        [(lit ''light'', lit ''turn_on'',
          [''entity_id'' \<mapsto> PyStr (lit ''light.bulb1''), ''brightness'' \<mapsto> PyInt 255])]
      \<and> closed_fatal (handle ascii_interp (Line frame_bulb) (Response 500))
      \<and> last (handle ascii_interp (Line frame_bulb) (Response 500)) = ProcessExit 1"
    by blast
  from bulb_end_to_end [of "ascii_bytes ''onlyone''" ascii_interp "Response 200" "[]"] r
  have 3: "outbound_calls (handle ascii_interp (Line (ascii_bytes ''onlyone'')) (Response 200)) = []
      \<and> closed_clean (handle ascii_interp (Line (ascii_bytes ''onlyone'')) (Response 200))"
    by blast
  from 1 2 3 r clean_frame_bulb show ?thesis by simp
qed

end
